theory Spec2Isabelle
  imports Complex_Main "HOL-Library.Sublist" "HOL-Library.Multiset"
begin

section \<open>Numbers, errors and the environment\<close>

text \<open>
  JavaScript numbers are modelled as reals (sizes and counters as naturals, the batch size
  and the rounded confidence as integers). Where the source would leave the finite reals
  (a division by zero, the logarithm of zero) the model stops with \<open>NonFinite\<close>: from
  there on the source computes with \<open>NaN\<close> or \<open>Infinity\<close>, about which this model says
  nothing. The exceptions of the source are the other constructors. The batch size is
  computed with the rounding of the doubles, and the branch on the mean time is modelled a
  second time over doubles, \<open>NaN\<close> and the infinities included (see below).
\<close>

datatype error =
    EmptyMean          \<comment> \<open>\<open>ss.mean\<close> throws on an empty array\<close>
  | NonFinite          \<comment> \<open>a value outside the finite reals arose\<close>
  | TypeError          \<comment> \<open>property access on \<open>undefined\<close>\<close>
  | CandidateFailure   \<comment> \<open>the algorithm under test threw\<close>

text \<open>
  The world \<open>runAnalysis\<close> runs in: the clock behind \<open>performance.now()\<close> as the sequence
  of its readings, the number of readings taken so far, and the number of invocations of
  the algorithm under test.
\<close>

record env =
  clock :: "nat \<Rightarrow> real"
  reads :: nat
  calls :: nat

definition now :: "env \<Rightarrow> real \<times> env" where
  "now e = (clock e (reads e), e\<lparr>reads := reads e + 1\<rparr>)"

datatype arg = ArrayArg "nat list" | NumberArg nat

text \<open>
  The algorithm under test is a black box: all that matters here is whether an invocation
  returns (\<open>True\<close>) or throws (\<open>False\<close>).
\<close>

type_synonym algorithm = "arg \<Rightarrow> bool"

definition invoke :: "algorithm \<Rightarrow> arg \<Rightarrow> env \<Rightarrow> error + env" where
  "invoke alg a e = (if alg a then Inr (e\<lparr>calls := calls e + 1\<rparr>) else Inl CandidateFailure)"

fun repeatInvoke :: "algorithm \<Rightarrow> arg \<Rightarrow> nat \<Rightarrow> env \<Rightarrow> error + env" where
  "repeatInvoke alg a 0 e = Inr e"
| "repeatInvoke alg a (Suc k) e =
     (case invoke alg a e of Inl err \<Rightarrow> Inl err | Inr e' \<Rightarrow> repeatInvoke alg a k e')"

text \<open>
  Where a claim is about the exact outcome of a division, the division is the double one:
  \<open>rnd64\<close> rounds a real to the nearest number with a 53-bit significand, ties to even,
  as IEEE 754 binary64 does. The exponent range is not modelled: a result beyond about
  \<open>1.8e308\<close> is \<open>Infinity\<close> in the source and a result below about \<open>2.2e-308\<close> loses
  bits there.
\<close>

definition pow2 :: "int \<Rightarrow> real" where
  "pow2 k = (if 0 \<le> k then 2 ^ nat k else 1 / 2 ^ nat (- k))"

definition roundEven :: "real \<Rightarrow> int" where
  "roundEven y =
     (let f = \<lfloor>y\<rfloor> in
      if y - of_int f < 1 / 2 then f
      else if 1 / 2 < y - of_int f then f + 1
      else if even f then f else f + 1)"

definition rnd64 :: "real \<Rightarrow> real" where
  "rnd64 x =
     (if x = 0 then 0
      else let e = \<lfloor>log 2 \<bar>x\<bar>\<rfloor>; ulp = pow2 (e - 52)
           in of_int (roundEven (x / ulp)) * ulp)"

section \<open>simple-statistics\<close>

text \<open>
  Modelled from the spec: the package \<open>simple-statistics\<close> (\<open>ss.mean\<close>,
  \<open>ss.linearRegression\<close>, \<open>ss.linearRegressionLine\<close>) is a dependency that is not under
  src/. The spec describes the arithmetic mean and the least-squares regression line; the
  package throws on the mean of an empty array and gives slope 0 through a single point.
\<close>

definition ss_mean :: "real list \<Rightarrow> error + real" where
  "ss_mean xs = (if xs = [] then Inl EmptyMean else Inr (sum_list xs / real (length xs)))"

definition ss_linearRegression :: "(real \<times> real) list \<Rightarrow> error + (real \<times> real)" where
  "ss_linearRegression data =
     (let dataLength = length data in
      if dataLength = 1 then Inr (0, snd (hd data))
      else
        let sumX = sum_list (map fst data);
            sumY = sum_list (map snd data);
            sumXX = sum_list (map (\<lambda>p. fst p * fst p) data);
            sumXY = sum_list (map (\<lambda>p. fst p * snd p) data);
            den = real dataLength * sumXX - sumX * sumX
        in if den = 0 then Inl NonFinite
           else
             let m = (real dataLength * sumXY - sumX * sumY) / den;
                 b = sumY / real dataLength - (m * sumX) / real dataLength
             in Inr (m, b))"

definition ss_linearRegressionLine :: "real \<times> real \<Rightarrow> real \<Rightarrow> real" where
  "ss_linearRegressionLine mb x = snd mb + fst mb * x"

section \<open>calculator.js: the benchmark\<close>

record dataPoint =
  d_n :: nat
  d_time :: real

definition generateInputArray :: "nat \<Rightarrow> nat list" where
  "generateInputArray k = [0..<k]"

definition makeInput :: "string \<Rightarrow> nat \<Rightarrow> arg" where
  "makeInput inputMode k =
     (if inputMode = ''number'' then NumberArg k else ArrayArg (generateInputArray k))"

text \<open>The calibration loop of \<open>runAnalysis\<close>: \<open>while ((calEnd - calStart) < 5 && calCount < 1000000)\<close>.\<close>

function calibrate ::
  "algorithm \<Rightarrow> arg \<Rightarrow> real \<Rightarrow> real \<Rightarrow> nat \<Rightarrow> env \<Rightarrow> error + (real \<times> nat \<times> env)" where
  "calibrate alg input calStart calEnd calCount e =
     (if calEnd - calStart < 5 \<and> calCount < 1000000 then
        (case invoke alg input e of
           Inl err \<Rightarrow> Inl err
         | Inr e1 \<Rightarrow> calibrate alg input calStart (fst (now e1)) (calCount + 1) (snd (now e1)))
      else Inr (calEnd, calCount, e))"
  by pat_completeness auto
termination
  by (relation "measure (\<lambda>(alg, input, calStart, calEnd, calCount, e). 1000000 - calCount)") auto

declare calibrate.simps [simp del]

text \<open>
  What a run of the calibration loop from \<open>(calEnd, calCount)\<close> in the world \<open>e\<close> leaves
  behind: the reading taken after the \<open>j\<close>-th further invocation is
  \<open>clock e (reads e + j - 1)\<close>.
\<close>

definition calPost :: "real \<Rightarrow> real \<Rightarrow> nat \<Rightarrow> env \<Rightarrow> real \<Rightarrow> nat \<Rightarrow> env \<Rightarrow> bool" where
  "calPost t0 tE c e calEnd' c' e' \<longleftrightarrow>
      c \<le> c' \<and> (c \<le> 1000000 \<longrightarrow> c' \<le> 1000000) \<and>
      (tE - t0 < 5 \<and> c < 1000000 \<longrightarrow> c < c') \<and>
      (c < c' \<longrightarrow> tE - t0 < 5) \<and>
      \<not> (calEnd' - t0 < 5 \<and> c' < 1000000) \<and>
      clock e' = clock e \<and> reads e' = reads e + (c' - c) \<and> calls e' = calls e + (c' - c) \<and>
      calEnd' = (if c' = c then tE else clock e (reads e + (c' - c) - 1)) \<and>
      (\<forall>j. c < j \<and> j < c' \<longrightarrow> clock e (reads e + (j - c) - 1) - t0 < 5)"

text \<open>
  Lines 132 to 138: the batch size from the calibration's count and duration. The product
  \<open>15 * calCount\<close> is exact in doubles for every count the loop can reach; the quotient is
  rounded, and \<open>0.001\<close> is the double nearest to one thousandth.
\<close>

definition computeBatchSize :: "nat \<Rightarrow> real \<Rightarrow> int" where
  "computeBatchSize calCount calDuration =
     (if calCount > 1
      then \<lceil>rnd64 ((15 * real calCount) /
                  (if calDuration = 0 then rnd64 (1 / 1000) else calDuration))\<rceil>
      else 1)"

text \<open>
  The measurement loop \<open>for (let i = 0; i < iterations; i++)\<close>, returning the array
  \<open>times\<close> (here \<open>measured\<close>).
\<close>

fun measureLoop ::
  "algorithm \<Rightarrow> string \<Rightarrow> nat \<Rightarrow> int \<Rightarrow> nat \<Rightarrow> env \<Rightarrow> error + (real list \<times> env)" where
  "measureLoop alg inputMode k batchSize 0 e = Inr ([], e)"
| "measureLoop alg inputMode k batchSize (Suc i) e =
     (let inputForAlgorithm = makeInput inputMode k;
          tStart = fst (now e);
          e1 = snd (now e)
      in case repeatInvoke alg inputForAlgorithm (nat batchSize) e1 of
           Inl err \<Rightarrow> Inl err
         | Inr e2 \<Rightarrow>
            (let tEnd = fst (now e2);
                 e3 = snd (now e2)
             in if batchSize = 0 then Inl NonFinite
                else (case measureLoop alg inputMode k batchSize i e3 of
                        Inl err \<Rightarrow> Inl err
                      | Inr (measured, e4) \<Rightarrow>
                          Inr ((tEnd - tStart) / real_of_int batchSize # measured, e4))))"

text \<open>The body of \<open>for (const n of inputSizes)\<close>.\<close>

definition measureSize ::
  "algorithm \<Rightarrow> string \<Rightarrow> nat \<Rightarrow> nat \<Rightarrow> env \<Rightarrow> error + (dataPoint \<times> env)" where
  "measureSize alg inputMode iterations k e =
     (let calibrationInput = makeInput inputMode k;
          calStart = fst (now e);
          e1 = snd (now e)
      in case calibrate alg calibrationInput calStart calStart 0 e1 of
           Inl err \<Rightarrow> Inl err
         | Inr (calEnd, calCount, e2) \<Rightarrow>
            (let calDuration = calEnd - calStart;
                 batchSize = computeBatchSize calCount calDuration
             in (case measureLoop alg inputMode k batchSize iterations e2 of
                   Inl err \<Rightarrow> Inl err
                 | Inr (measured, e3) \<Rightarrow>
                     (case ss_mean measured of
                        Inl err \<Rightarrow> Inl err
                      | Inr avgTime \<Rightarrow> Inr (\<lparr>d_n = k, d_time = avgTime\<rparr>, e3)))))"

fun measureAll ::
  "algorithm \<Rightarrow> string \<Rightarrow> nat \<Rightarrow> nat list \<Rightarrow> env \<Rightarrow> error + (dataPoint list \<times> env)" where
  "measureAll alg inputMode iterations [] e = Inr ([], e)"
| "measureAll alg inputMode iterations (k # ks) e =
     (case measureSize alg inputMode iterations k e of
        Inl err \<Rightarrow> Inl err
      | Inr (d, e1) \<Rightarrow>
          (case measureAll alg inputMode iterations ks e1 of
             Inl err \<Rightarrow> Inl err
           | Inr (ds, e2) \<Rightarrow> Inr (d # ds, e2)))"

definition runAnalysis ::
  "algorithm \<Rightarrow> nat list \<Rightarrow> nat \<Rightarrow> string \<Rightarrow> env \<Rightarrow> error + (dataPoint list \<times> env)" where
  "runAnalysis alg inputSizes iterations inputMode e =
     (case (if length inputSizes > 0
            then repeatInvoke alg (makeInput inputMode (hd inputSizes)) 100 e
            else Inr e) of
        Inl err \<Rightarrow> Inl err
      | Inr e1 \<Rightarrow> measureAll alg inputMode iterations inputSizes e1)"

section \<open>calculator.js: the classifier\<close>

text \<open>
  \<open>calculateRMSE\<close>: the reduction runs over \<open>actual\<close> and reads \<open>predicted[i]\<close>; every
  caller passes two arrays of one length.
\<close>

definition calculateRMSE :: "real list \<Rightarrow> real list \<Rightarrow> error + real" where
  "calculateRMSE actual predicted =
     (let sumSquaredErrors = sum_list (map (\<lambda>(val, p). (val - p)\<^sup>2) (zip actual predicted))
      in if actual = [] then Inl NonFinite
         else Inr (sqrt (sumSquaredErrors / real (length actual))))"

text \<open>The four covariate transforms; \<open>Math.log(0)\<close> is \<open>-Infinity\<close>.\<close>

definition linearT :: "nat \<Rightarrow> error + real" where
  "linearT k = Inr (real k)"

definition quadraticT :: "nat \<Rightarrow> error + real" where
  "quadraticT k = Inr ((real k)\<^sup>2)"

definition logT :: "nat \<Rightarrow> error + real" where
  "logT k = (if k = 0 then Inl NonFinite else Inr (ln (real k)))"

definition nLogNT :: "nat \<Rightarrow> error + real" where
  "nLogNT k = (if k = 0 then Inl NonFinite else Inr (real k * ln (real k)))"

fun mapE :: "('a \<Rightarrow> error + 'b) \<Rightarrow> 'a list \<Rightarrow> error + 'b list" where
  "mapE f [] = Inr []"
| "mapE f (x # xs) =
     (case f x of
        Inl err \<Rightarrow> Inl err
      | Inr y \<Rightarrow> (case mapE f xs of Inl err \<Rightarrow> Inl err | Inr ys \<Rightarrow> Inr (y # ys)))"

definition getRegressionRMSE :: "(nat \<Rightarrow> error + real) \<Rightarrow> dataPoint list \<Rightarrow> error + real" where
  "getRegressionRMSE transformFn dataPoints =
     (case mapE transformFn (map d_n dataPoints) of
        Inl err \<Rightarrow> Inl err
      | Inr xs \<Rightarrow>
          (case ss_linearRegression (zip xs (map d_time dataPoints)) of
             Inl err \<Rightarrow> Inl err
           | Inr model \<Rightarrow>
               calculateRMSE (map d_time dataPoints) (map (ss_linearRegressionLine model) xs)))"

record model =
  m_type :: string
  m_rmse :: real
  m_complexity :: nat

record fit =
  f_type :: string
  f_rmse :: real

record classification =
  bestFit :: string
  confidence :: int
  results :: "fit list"

text \<open>The array \<open>models\<close> before it is sorted, from the five RMSE values.\<close>

definition modelsOf :: "real \<Rightarrow> real \<Rightarrow> real \<Rightarrow> real \<Rightarrow> real \<Rightarrow> model list" where
  "modelsOf constantRMSE logRMSE linearRMSE nLogNRMSE quadraticRMSE =
     [\<lparr>m_type = ''O(1) - Constant'', m_rmse = constantRMSE, m_complexity = 1\<rparr>,
      \<lparr>m_type = ''O(log n) - Logarithmic'', m_rmse = logRMSE, m_complexity = 2\<rparr>,
      \<lparr>m_type = ''O(n) - Linear'', m_rmse = linearRMSE, m_complexity = 3\<rparr>,
      \<lparr>m_type = ''O(n log n) - Linear-ithmic'', m_rmse = nLogNRMSE, m_complexity = 4\<rparr>,
      \<lparr>m_type = ''O(n^2) - Quadratic'', m_rmse = quadraticRMSE, m_complexity = 5\<rparr>]"

definition fitModels :: "dataPoint list \<Rightarrow> error + model list" where
  "fitModels dataPoints =
     (case ss_mean (map d_time dataPoints) of
        Inl err \<Rightarrow> Inl err
      | Inr meanTime \<Rightarrow>
     (case calculateRMSE (map d_time dataPoints) (map (\<lambda>_. meanTime) (map d_n dataPoints)) of
        Inl err \<Rightarrow> Inl err
      | Inr constantRMSE \<Rightarrow>
     (case getRegressionRMSE linearT dataPoints of
        Inl err \<Rightarrow> Inl err
      | Inr linearRMSE \<Rightarrow>
     (case getRegressionRMSE quadraticT dataPoints of
        Inl err \<Rightarrow> Inl err
      | Inr quadraticRMSE \<Rightarrow>
     (case getRegressionRMSE logT dataPoints of
        Inl err \<Rightarrow> Inl err
      | Inr logRMSE \<Rightarrow>
     (case getRegressionRMSE nLogNT dataPoints of
        Inl err \<Rightarrow> Inl err
      | Inr nLogNRMSE \<Rightarrow>
          Inr (modelsOf constantRMSE logRMSE linearRMSE nLogNRMSE quadraticRMSE)))))))"

text \<open>\<open>String.prototype.includes\<close>.\<close>

fun includes_str :: "string \<Rightarrow> string \<Rightarrow> bool" where
  "includes_str [] sub = (sub = [])"
| "includes_str (c # cs) sub = (prefix sub (c # cs) \<or> includes_str cs sub)"

text \<open>One turn of the loop of the standard branch (lines 242 to 248).\<close>

definition occamStep :: "model \<Rightarrow> model \<Rightarrow> model" where
  "occamStep bestModel candidate =
     (if m_complexity candidate < m_complexity bestModel then
        (let diff = (m_rmse candidate - m_rmse bestModel) /
                    (if m_rmse bestModel = 0 then 1 / 1000000000 else m_rmse bestModel)
         in if diff < 15 / 100 then candidate else bestModel)
      else bestModel)"

text \<open>Lines 256 to 266: the separation from the second best model.\<close>

definition separationOf :: "model list \<Rightarrow> model \<Rightarrow> real" where
  "separationOf models bestModel =
     (let sortedByFit = sort_key m_rmse models;
          secondBest =
            (case sortedByFit of
               [] \<Rightarrow> None
             | s0 # rest \<Rightarrow>
                 (if s0 = bestModel then (case rest of [] \<Rightarrow> None | s1 # _ \<Rightarrow> Some s1)
                  else Some s0))
      in case secondBest of
           None \<Rightarrow> 0
         | Some sb \<Rightarrow>
             min 1 ((m_rmse sb - m_rmse bestModel) / (if m_rmse sb = 0 then 1 else m_rmse sb)))"

text \<open>Lines 252 to 268: the confidence of the standard branch, before rounding.\<close>

definition fitQualityOf :: "real \<Rightarrow> model \<Rightarrow> real" where
  "fitQualityOf meanTime bestModel =
     (let signalMagnitude = (if meanTime > 0 then meanTime else 1);
          normalizedError = m_rmse bestModel / signalMagnitude
      in max 0 (1 - normalizedError * 2))"

definition standardConfidence :: "real \<Rightarrow> model list \<Rightarrow> model \<Rightarrow> real" where
  "standardConfidence meanTime models bestModel =
     (fitQualityOf meanTime bestModel * (7 / 10) + separationOf models bestModel * (3 / 10)) * 100"

text \<open>Lines 272 to 278: the fits as they are returned, sorted again by RMSE.\<close>

definition shownOf :: "model list \<Rightarrow> fit list" where
  "shownOf models = sort_key f_rmse (map (\<lambda>m. \<lparr>f_type = m_type m, f_rmse = m_rmse m\<rparr>) models)"

text \<open>
  \<open>determineComplexity\<close>. \<open>Array.prototype.sort\<close> is stable, and on finite numbers the
  comparator \<open>a.rmse - b.rmse\<close> is a total preorder: \<open>sort_key\<close>, a stable insertion sort.
  \<open>Math.round\<close> rounds halves up, as \<open>round\<close> does.
\<close>

definition determineComplexity :: "dataPoint list \<Rightarrow> error + classification" where
  "determineComplexity dataPoints =
     (case ss_mean (map d_time dataPoints) of
        Inl err \<Rightarrow> Inl err
      | Inr meanTime \<Rightarrow>
     (case fitModels dataPoints of
        Inl err \<Rightarrow> Inl err
      | Inr unsorted \<Rightarrow>
          (let models = sort_key m_rmse unsorted;
               shown = shownOf models
           in case models of
                [] \<Rightarrow> Inl TypeError
              | m0 # rest \<Rightarrow>
                  (if meanTime < 1 / 10000 then
                     (case (List.find (\<lambda>m. includes_str (m_type m) ''O(1)'') models,
                            List.find (\<lambda>m. includes_str (m_type m) ''O(log n)'') models) of
                        (Some o1Model, Some logModel) \<Rightarrow>
                          Inr \<lparr>bestFit = m_type (if m_rmse logModel < m_rmse o1Model
                                                   then logModel else o1Model),
                               confidence = round (95 :: real), results = shown\<rparr>
                      | (Some o1Model, None) \<Rightarrow>
                          Inr \<lparr>bestFit = m_type o1Model, confidence = round (95 :: real),
                               results = shown\<rparr>
                      | (None, _) \<Rightarrow> Inl TypeError)
                   else
                     (let bestModel = foldl occamStep m0 rest
                      in Inr \<lparr>bestFit = m_type bestModel,
                              confidence = round (standardConfidence meanTime models bestModel),
                              results = shown\<rparr>)))))"

text \<open>
  The samples the data model allows, as far as the sizes go: at least two, with distinct
  positive sizes.
\<close>

definition validSamples :: "dataPoint list \<Rightarrow> bool" where
  "validSamples dataPoints \<longleftrightarrow>
     2 \<le> length dataPoints \<and> distinct (map d_n dataPoints) \<and> (\<forall>d \<in> set dataPoints. 0 < d_n d)"

definition meanOf :: "dataPoint list \<Rightarrow> real" where
  "meanOf dataPoints = sum_list (map d_time dataPoints) / real (length dataPoints)"

text \<open>
  What the classifier does with valid samples, in one place: the five fits with their RMSE
  values, their order by RMSE, and the result in either regime.
\<close>

definition classifies ::
  "dataPoint list \<Rightarrow> real \<Rightarrow> real \<Rightarrow> real \<Rightarrow> real \<Rightarrow> real \<Rightarrow> model \<Rightarrow> model list \<Rightarrow> bool" where
  "classifies dps c l li nl q m0 rest \<longleftrightarrow>
     fitModels dps = Inr (modelsOf c l li nl q) \<and>
     0 \<le> c \<and> 0 \<le> l \<and> 0 \<le> li \<and> 0 \<le> nl \<and> 0 \<le> q \<and>
     calculateRMSE (map d_time dps) (map (\<lambda>_. meanOf dps) (map d_n dps)) = Inr c \<and>
     getRegressionRMSE logT dps = Inr l \<and> getRegressionRMSE linearT dps = Inr li \<and>
     getRegressionRMSE nLogNT dps = Inr nl \<and> getRegressionRMSE quadraticT dps = Inr q \<and>
     sort_key m_rmse (modelsOf c l li nl q) = m0 # rest \<and>
     determineComplexity dps = Inr
       (if meanOf dps < 1 / 10000 then
          \<lparr>bestFit = (if l < c then ''O(log n) - Logarithmic'' else ''O(1) - Constant''),
           confidence = 95, results = shownOf (m0 # rest)\<rparr>
        else
          \<lparr>bestFit = m_type (foldl occamStep m0 rest),
           confidence = round (standardConfidence (meanOf dps) (m0 # rest) (foldl occamStep m0 rest)),
           results = shownOf (m0 # rest)\<rparr>)"

section \<open>analysisRunner.js\<close>

definition runSingleAnalysis ::
  "algorithm \<Rightarrow> nat list \<Rightarrow> nat \<Rightarrow> string \<Rightarrow> env \<Rightarrow> error + (classification \<times> env)" where
  "runSingleAnalysis alg inputSizes iterations inputMode e =
     (if length inputSizes < 2 then
        Inr (\<lparr>bestFit = ''N/A'', confidence = 0, results = []\<rparr>, e)
      else
        (case runAnalysis alg inputSizes iterations inputMode e of
           Inl err \<Rightarrow> Inl err
         | Inr (dataPoints, e1) \<Rightarrow>
             (case determineComplexity dataPoints of
                Inl err \<Rightarrow> Inl err
              | Inr complexity \<Rightarrow> Inr (complexity, e1))))"

section \<open>The claim's scan, and concrete inputs\<close>

text \<open>
  The tie-break as the specification words it: the candidates are visited in ascending
  rank, starting from the model of lowest RMSE, and a simpler candidate is promoted when
  \<open>(candidate.rmse - best.rmse) / best.rmse < 0.15\<close>. It is compared with the source below.
\<close>

definition specStep :: "model \<Rightarrow> model \<Rightarrow> model" where
  "specStep best candidate =
     (if m_complexity candidate < m_complexity best \<and>
         (m_rmse candidate - m_rmse best) / m_rmse best < 15 / 100
      then candidate else best)"

definition rankOrderScan :: "model list \<Rightarrow> model" where
  "rankOrderScan models =
     foldl specStep (hd (sort_key m_rmse models)) (sort_key m_complexity models)"

definition catalogLabels :: "string list" where
  "catalogLabels = [''O(1) - Constant'', ''O(log n) - Logarithmic'', ''O(n) - Linear'',
                    ''O(n log n) - Linear-ithmic'', ''O(n^2) - Quadratic'']"

text \<open>An algorithm that always returns, and a clock that advances 5 units per reading.\<close>

definition alwaysReturns :: algorithm where
  "alwaysReturns a = True"

definition stepClock :: "nat \<Rightarrow> real" where
  "stepClock i = 5 * real i"

definition stillClock :: "nat \<Rightarrow> real" where
  "stillClock i = 0"

text \<open>Three noisy samples at the sizes 1, 2, 4, their five fits, and the fits sorted by RMSE.\<close>

definition dA :: "dataPoint list" where
  "dA = [\<lparr>d_n = 1, d_time = 2\<rparr>, \<lparr>d_n = 2, d_time = 5\<rparr>, \<lparr>d_n = 4, d_time = 1\<rparr>]"

text \<open>
  A single sample; two samples of which one has a negative time; three samples of which
  one has a negative time.
\<close>

definition dOne :: "dataPoint list" where
  "dOne = [\<lparr>d_n = 10, d_time = 5\<rparr>]"

definition dN :: "dataPoint list" where
  "dN = [\<lparr>d_n = 1, d_time = - 3\<rparr>, \<lparr>d_n = 2, d_time = 1\<rparr>]"

definition dM :: "dataPoint list" where
  "dM = [\<lparr>d_n = 1, d_time = - 2\<rparr>, \<lparr>d_n = 2, d_time = 5\<rparr>, \<lparr>d_n = 4, d_time = 1\<rparr>]"

definition mA :: "model list" where
  "mA = modelsOf (sqrt (26 / 9)) (sqrt (49 / 18)) (sqrt (50 / 21)) (sqrt (13 / 6)) (sqrt (128 / 63))"

definition sA :: "model list" where
  "sA = [\<lparr>m_type = ''O(n^2) - Quadratic'', m_rmse = sqrt (128 / 63), m_complexity = 5\<rparr>,
      \<lparr>m_type = ''O(n log n) - Linear-ithmic'', m_rmse = sqrt (13 / 6), m_complexity = 4\<rparr>,
      \<lparr>m_type = ''O(n) - Linear'', m_rmse = sqrt (50 / 21), m_complexity = 3\<rparr>,
      \<lparr>m_type = ''O(log n) - Logarithmic'', m_rmse = sqrt (49 / 18), m_complexity = 2\<rparr>,
      \<lparr>m_type = ''O(1) - Constant'', m_rmse = sqrt (26 / 9), m_complexity = 1\<rparr>]"

text \<open>
  The fits as the specification describes them, computed from the samples as they are given:
  the RMSE of the times around their mean, and the RMSE of the least-squares line of the
  times against a covariate. \<open>rawModels\<close> is the array of line 211 with these values. They
  are compared with the source below.
\<close>

definition flatRMSE :: "real list \<Rightarrow> real" where
  "flatRMSE ts =
     sqrt (sum_list (map (\<lambda>t. (t - sum_list ts / real (length ts))\<^sup>2) ts) / real (length ts))"

definition lsqRMSE :: "real list \<Rightarrow> real list \<Rightarrow> real" where
  "lsqRMSE xs ts =
     (let N = real (length xs);
          sx = sum_list xs;
          st = sum_list ts;
          sxx = sum_list (map (\<lambda>x. x * x) xs);
          sxt = sum_list (map (\<lambda>(x, t). x * t) (zip xs ts));
          slope = (N * sxt - sx * st) / (N * sxx - sx * sx);
          intercept = st / N - slope * sx / N
      in sqrt (sum_list (map (\<lambda>(x, t). (t - (intercept + slope * x))\<^sup>2) (zip xs ts)) / N))"

definition rawModels :: "dataPoint list \<Rightarrow> model list" where
  "rawModels dataPoints =
     (let ts = map d_time dataPoints in
      modelsOf (flatRMSE ts)
        (lsqRMSE (map (\<lambda>d. ln (real (d_n d))) dataPoints) ts)
        (lsqRMSE (map (\<lambda>d. real (d_n d)) dataPoints) ts)
        (lsqRMSE (map (\<lambda>d. real (d_n d) * ln (real (d_n d))) dataPoints) ts)
        (lsqRMSE (map (\<lambda>d. (real (d_n d))\<^sup>2) dataPoints) ts))"

section \<open>determineComplexity over the doubles of a run\<close>













section \<open>The benchmark: calibration, batch size, one data point per size\<close>

lemma repeatInvoke_ok:
  "\<forall>a. alg a \<Longrightarrow> repeatInvoke alg a k e = Inr (e\<lparr>calls := calls e + k\<rparr>)"
  by (induction k arbitrary: e) (simp_all add: invoke_def)

lemma calPost_step:
  assumes T: "calEnd - calStart < 5" "calCount < 1000000"
    and P: "calPost calStart (clock e (reads e)) (calCount + 1)
              (e\<lparr>calls := calls e + 1, reads := reads e + 1\<rparr>) calEnd' c' e'"
  shows "calPost calStart calEnd calCount e calEnd' c' e'"
proof -
  have a: "calCount + 1 \<le> c'" "c' \<le> 1000000" "\<not> (calEnd' - calStart < 5 \<and> c' < 1000000)"
    "clock e' = clock e" "reads e' = reads e + 1 + (c' - (calCount + 1))"
    "calls e' = calls e + 1 + (c' - (calCount + 1))"
    "calEnd' = (if c' = calCount + 1 then clock e (reads e) else clock e (reads e + 1 + (c' - (calCount + 1)) - 1))"
    and b: "\<forall>j. calCount + 1 < j \<and> j < c' \<longrightarrow> clock e (reads e + 1 + (j - (calCount + 1)) - 1) - calStart < 5"
    and c: "calCount + 1 < c' \<longrightarrow> clock e (reads e) - calStart < 5"
    using P T unfolding calPost_def by simp_all
  have l: "clock e (reads e + (j - calCount) - 1) - calStart < 5" if j: "calCount < j" "j < c'" for j
  proof (cases "j = calCount + 1")
    case True
    then show ?thesis using c j by simp
  next
    case False
    then have "calCount + 1 < j \<and> j < c'" using j by simp
    with b have "clock e (reads e + 1 + (j - (calCount + 1)) - 1) - calStart < 5" by blast
    moreover have "reads e + 1 + (j - (calCount + 1)) - 1 = reads e + (j - calCount) - 1" using j by simp
    ultimately show ?thesis by simp
  qed
  have e1: "calEnd' = (if c' = calCount then calEnd else clock e (reads e + (c' - calCount) - 1))"
  proof (cases "c' = calCount + 1")
    case True then show ?thesis using a(7) by simp
  next
    case False
    moreover have "reads e + 1 + (c' - (calCount + 1)) - 1 = reads e + (c' - calCount) - 1" using a(1) by simp
    ultimately show ?thesis using a(1) a(7) by simp
  qed
  have r: "reads e' = reads e + (c' - calCount)" "calls e' = calls e + (c' - calCount)"
    using a(1) a(5) a(6) by simp_all
  show ?thesis unfolding calPost_def using T a(1-4) r e1 l by simp
qed

lemma calibrate_gen:
  "alg input \<Longrightarrow>
   \<exists>calEnd' c' e'. calibrate alg input t0 tE c e = Inr (calEnd', c', e') \<and> calPost t0 tE c e calEnd' c' e'"
proof (induction alg input t0 tE c e rule: calibrate.induct)
  case (1 alg input calStart calEnd calCount e)
  show ?case
  proof (cases "calEnd - calStart < 5 \<and> calCount < 1000000")
    case False
    have "calibrate alg input calStart calEnd calCount e = Inr (calEnd, calCount, e)"
      by (subst calibrate.simps) (use False in auto)
    moreover have "calPost calStart calEnd calCount e calEnd calCount e"
      unfolding calPost_def using False by auto
    ultimately show ?thesis by blast
  next
    case True
    define e1 where "e1 = e\<lparr>calls := calls e + 1\<rparr>"
    have inv: "invoke alg input e = Inr e1" using 1(2) by (simp add: invoke_def e1_def)
    have s: "snd (now e1) = e\<lparr>calls := calls e + 1, reads := reads e + 1\<rparr>" "fst (now e1) = clock e (reads e)"
      by (simp_all add: now_def e1_def)
    from 1(1)[OF True inv 1(2)] obtain calEnd' c' e' where
      r: "calibrate alg input calStart (fst (now e1)) (calCount + 1) (snd (now e1)) = Inr (calEnd', c', e')"
      and p: "calPost calStart (fst (now e1)) (calCount + 1) (snd (now e1)) calEnd' c' e'"
      by blast
    have eq: "calibrate alg input calStart calEnd calCount e = Inr (calEnd', c', e')"
      by (subst calibrate.simps) (use r in \<open>simp add: True inv\<close>)
    have "calPost calStart calEnd calCount e calEnd' c' e'"
      using calPost_step[of calEnd calStart calCount e calEnd' c' e'] True p unfolding s by simp
    with eq show ?thesis by blast
  qed
qed

lemma calibrate_first:
  assumes "alg input"
  shows "\<exists>calCount e'. calibrate alg input t0 t0 0 e = Inr (clock e (reads e + calCount - 1), calCount, e') \<and>
        1 \<le> calCount \<and> calCount \<le> 1000000 \<and>
        (5 \<le> clock e (reads e + calCount - 1) - t0 \<or> calCount = 1000000) \<and>
        (\<forall>j. 1 \<le> j \<and> j < calCount \<longrightarrow> clock e (reads e + j - 1) - t0 < 5) \<and>
        calls e' = calls e + calCount \<and> reads e' = reads e + calCount \<and> clock e' = clock e"
proof -
  from calibrate_gen[of alg input t0 t0 0 e] assms obtain calEnd' c' e' where
    r: "calibrate alg input t0 t0 0 e = Inr (calEnd', c', e')" and p: "calPost t0 t0 0 e calEnd' c' e'"
    by blast
  have c: "0 < c'" using p unfolding calPost_def by simp
  have ce: "calEnd' = clock e (reads e + c' - 1)" using p c unfolding calPost_def by simp
  have "c' \<le> 1000000" "\<not> (calEnd' - t0 < 5 \<and> c' < 1000000)"
    "\<forall>j. 0 < j \<and> j < c' \<longrightarrow> clock e (reads e + j - 1) - t0 < 5"
    "calls e' = calls e + c'" "reads e' = reads e + c'" "clock e' = clock e"
    using p unfolding calPost_def by simp_all
  then show ?thesis using r c ce
    by (intro exI[of _ c'] exI[of _ e']) auto
qed

text \<open>
  C8. Whatever the clock reads (a clock that stands still included), the calibration loop of
  \<open>runAnalysis\<close> ends: if the algorithm returns, it ends after \<open>calCount\<close> invocations,
  where \<open>calCount\<close> is the first count from 1 at which the elapsed time has reached 5 or
  the count has reached 1000000; if the algorithm throws, it ends with that exception.
\<close>

theorem calibrate_terminates:
  "if alg input then
     (\<exists>calCount e'. calibrate alg input t0 t0 0 e = Inr (clock e (reads e + calCount - 1), calCount, e') \<and>
        1 \<le> calCount \<and> calCount \<le> 1000000 \<and>
        (5 \<le> clock e (reads e + calCount - 1) - t0 \<or> calCount = 1000000) \<and>
        (\<forall>j. 1 \<le> j \<and> j < calCount \<longrightarrow> clock e (reads e + j - 1) - t0 < 5) \<and>
        calls e' = calls e + calCount \<and> reads e' = reads e + calCount)
   else calibrate alg input t0 t0 0 e = Inl CandidateFailure"
proof (cases "alg input")
  case True
  from calibrate_first[of alg input t0 e] True show ?thesis by auto
next
  case False
  have "calibrate alg input t0 t0 0 e = Inl CandidateFailure"
    by (subst calibrate.simps) (simp add: invoke_def False)
  then show ?thesis using False by simp
qed

theorem calibrate_terminates_witness:
  "\<exists>e'. calibrate (\<lambda>_. True) (NumberArg 1) 0 0 0 \<lparr>clock = (\<lambda>_. 0), reads = 1, calls = 0\<rparr>
         = Inr (0, 1000000, e') \<and> calls e' = 1000000"
  using calibrate_terminates[of "\<lambda>_. True" "NumberArg 1" 0 "\<lparr>clock = (\<lambda>_. 0), reads = 1, calls = 0\<rparr>"]
  by auto

lemma pow2_powr: "pow2 k = 2 powr (of_int k)"
  by (simp add: pow2_def powr_real_of_int inverse_eq_divide)

lemma pow2_pos: "0 < pow2 k"
  by (simp add: pow2_def)

lemma pow2_mono: "a \<le> b \<Longrightarrow> pow2 a \<le> pow2 b"
  by (simp add: pow2_powr)

lemma roundEven_ge_floor: "\<lfloor>y\<rfloor> \<le> roundEven y"
  by (simp add: roundEven_def Let_def)

lemma roundEven_near: "\<bar>of_int (roundEven y) - y\<bar> \<le> 1 / 2"
  unfolding roundEven_def Let_def by (auto simp: abs_if) linarith+

lemma rnd64_eval:
  assumes "pow2 e \<le> x" and "x < pow2 (e + 1)"
  shows "rnd64 x = of_int (roundEven (x / pow2 (e - 52))) * pow2 (e - 52)"
proof -
  have x: "0 < x" using assms(1) pow2_pos[of e] by linarith
  have "\<lfloor>log 2 x\<rfloor> = e"
    using assms x by (subst floor_log_eq_powr_iff) (simp_all add: pow2_powr)
  then show ?thesis using x by (simp add: rnd64_def Let_def)
qed

lemma rnd64_binade:
  assumes "0 < x"
  shows "pow2 \<lfloor>log 2 x\<rfloor> \<le> x" and "x < pow2 (\<lfloor>log 2 x\<rfloor> + 1)"
  using floor_log_eq_powr_iff[of x 2 "\<lfloor>log 2 x\<rfloor>"] assms unfolding pow2_powr by simp_all

lemma rnd64_pos:
  assumes "0 < x"
  shows "0 < rnd64 x"
proof -
  define e where "e = \<lfloor>log 2 x\<rfloor>"
  have b: "pow2 e \<le> x" "x < pow2 (e + 1)"
    unfolding e_def by (rule rnd64_binade[OF assms])+
  have "pow2 e = pow2 (e - 52) * 2 ^ 52"
    unfolding pow2_powr by (simp add: powr_diff)
  then have "2 ^ 52 \<le> x / pow2 (e - 52)"
    using b(1) pow2_pos[of "e - 52"] by (simp add: pos_le_divide_eq mult.commute)
  moreover have "(1::real) \<le> 2 ^ 52" by simp
  ultimately have "(1::real) \<le> x / pow2 (e - 52)" by linarith
  then have "1 \<le> \<lfloor>x / pow2 (e - 52)\<rfloor>" by linarith
  then have "1 \<le> roundEven (x / pow2 (e - 52))"
    using roundEven_ge_floor[of "x / pow2 (e - 52)"] by linarith
  then have "0 < real_of_int (roundEven (x / pow2 (e - 52))) * pow2 (e - 52)"
    using pow2_pos[of "e - 52"] by simp
  then show ?thesis unfolding rnd64_eval[OF b] .
qed

lemma rnd64_rel:
  assumes "0 < x"
  shows "x * (1 - 1 / 2 ^ 53) \<le> rnd64 x" and "rnd64 x \<le> x * (1 + 1 / 2 ^ 53)"
proof -
  define e where "e = \<lfloor>log 2 x\<rfloor>"
  define u where "u = pow2 (e - 52)"
  have b: "pow2 e \<le> x" "x < pow2 (e + 1)"
    unfolding e_def by (rule rnd64_binade[OF assms])+
  have u: "0 < u" unfolding u_def by (rule pow2_pos)
  have "pow2 e = u * 2 ^ 52" unfolding u_def pow2_powr by (simp add: powr_diff)
  then have ux: "u * 2 ^ 52 \<le> x" using b(1) by simp
  have r: "rnd64 x = of_int (roundEven (x / u)) * u" unfolding u_def by (rule rnd64_eval[OF b])
  have "\<bar>of_int (roundEven (x / u)) - x / u\<bar> \<le> 1 / 2" by (rule roundEven_near)
  then have "\<bar>of_int (roundEven (x / u)) - x / u\<bar> * u \<le> 1 / 2 * u"
    using u by (intro mult_right_mono) simp_all
  moreover have "\<bar>of_int (roundEven (x / u)) - x / u\<bar> * u = \<bar>rnd64 x - x\<bar>"
  proof -
    have "(of_int (roundEven (x / u)) - x / u) * u = rnd64 x - x"
      using u unfolding r by (simp add: field_simps)
    then have "\<bar>rnd64 x - x\<bar> = \<bar>(of_int (roundEven (x / u)) - x / u) * u\<bar>" by simp
    also have "\<dots> = \<bar>of_int (roundEven (x / u)) - x / u\<bar> * \<bar>u\<bar>" by (rule abs_mult)
    finally show ?thesis using u by simp
  qed
  ultimately have d: "\<bar>rnd64 x - x\<bar> \<le> u / 2" by simp
  have "u / 2 \<le> x / 2 ^ 53" using ux by (simp add: field_simps)
  with d have a: "\<bar>rnd64 x - x\<bar> \<le> x / 2 ^ 53" by linarith
  have m: "x * (1 - 1 / 2 ^ 53) = x - x / 2 ^ 53" "x * (1 + 1 / 2 ^ 53) = x + x / 2 ^ 53"
    by (simp_all add: algebra_simps)
  show "x * (1 - 1 / 2 ^ 53) \<le> rnd64 x" unfolding m using a by linarith
  show "rnd64 x \<le> x * (1 + 1 / 2 ^ 53)" unfolding m using a by linarith
qed

lemma rnd64_milli: "rnd64 (1 / 1000) = 1152921504606847 / 1152921504606846976"
proof -
  have "rnd64 (1 / 1000) = of_int (roundEven ((1 / 1000) / pow2 (- 10 - 52))) * pow2 (- 10 - 52)"
    by (rule rnd64_eval) (simp_all add: pow2_def)
  also have "\<dots> = 1152921504606847 / 1152921504606846976"
    by (simp add: pow2_def roundEven_def Let_def)
  finally show ?thesis .
qed

lemma rnd64_three: "rnd64 3 = 3"
proof -
  have "rnd64 3 = of_int (roundEven (3 / pow2 (1 - 52))) * pow2 (1 - 52)"
    by (rule rnd64_eval) (simp_all add: pow2_def)
  also have "\<dots> = 3" by (simp add: pow2_def roundEven_def Let_def)
  finally show ?thesis .
qed

lemma rnd64_cap:
  "rnd64 (15000000 / (1152921504606847 / 1152921504606846976)) = 15000000000"
proof -
  let ?q = "15000000 / (1152921504606847 / 1152921504606846976) :: real"
  have "rnd64 ?q = of_int (roundEven (?q / pow2 (33 - 52))) * pow2 (33 - 52)"
    by (rule rnd64_eval) (simp_all add: pow2_def)
  also have "\<dots> = 15000000000" by (simp add: pow2_def roundEven_def Let_def)
  finally show ?thesis .
qed

lemma rnd64_v16: "rnd64 (60 / (3752999689475413 / 562949953421312)) = 9"
proof -
  let ?q = "60 / (3752999689475413 / 562949953421312) :: real"
  have "rnd64 ?q = of_int (roundEven (?q / pow2 (3 - 52))) * pow2 (3 - 52)"
    by (rule rnd64_eval) (simp_all add: pow2_def)
  also have "\<dots> = 9" by (simp add: pow2_def roundEven_def Let_def)
  finally show ?thesis .
qed

lemma computeBatchSize_pos: "0 \<le> d \<Longrightarrow> 1 \<le> computeBatchSize c d"
proof (cases "c > 1")
  case False then show ?thesis by (simp add: computeBatchSize_def)
next
  case True
  assume d: "0 \<le> d"
  have "0 < rnd64 (1 / 1000)" by (rule rnd64_pos) simp
  then have "0 < (if d = 0 then rnd64 (1 / 1000) else d)" using d by simp
  then have "0 < (15 * real c) / (if d = 0 then rnd64 (1 / 1000) else d)" using True by simp
  then have "0 < rnd64 ((15 * real c) / (if d = 0 then rnd64 (1 / 1000) else d))"
    by (rule rnd64_pos)
  then have "0 < \<lceil>rnd64 ((15 * real c) / (if d = 0 then rnd64 (1 / 1000) else d))\<rceil>"
    by (simp only: zero_less_ceiling)
  then show ?thesis using True unfolding computeBatchSize_def by simp
qed

lemma measureLoop_ok:
  "\<forall>a. alg a \<Longrightarrow> batchSize \<noteq> 0 \<Longrightarrow>
   \<exists>ts e'. measureLoop alg mode k batchSize its e = Inr (ts, e') \<and> length ts = its \<and> clock e' = clock e"
proof (induction its arbitrary: e)
  case 0 then show ?case by simp
next
  case (Suc i)
  define e3 where "e3 = snd (now (snd (now e)\<lparr>calls := calls (snd (now e)) + nat batchSize\<rparr>))"
  from Suc.IH[OF Suc.prems, of e3] obtain ts e' where
    "measureLoop alg mode k batchSize i e3 = Inr (ts, e')" "length ts = i" "clock e' = clock e3" by blast
  moreover have "clock e3 = clock e" by (simp add: e3_def now_def)
  moreover have "repeatInvoke alg (makeInput mode k) (nat batchSize) (snd (now e))
      = Inr (snd (now e)\<lparr>calls := calls (snd (now e)) + nat batchSize\<rparr>)"
    using repeatInvoke_ok[OF Suc.prems(1)] by blast
  ultimately show ?case using Suc.prems(2)
    by (simp add: Let_def e3_def)
qed

lemma measureSize_ok:
  assumes alg: "\<forall>a. alg a" and mono: "\<forall>i j. i \<le> j \<longrightarrow> clock e i \<le> clock e j" and its: "0 < its"
  shows "\<exists>d e'. measureSize alg mode its k e = Inr (d, e') \<and> d_n d = k \<and> clock e' = clock e"
proof -
  let ?t0 = "fst (now e)"
  let ?e1 = "snd (now e)"
  have e1: "clock ?e1 = clock e" "reads ?e1 = reads e + 1" "?t0 = clock e (reads e)"
    by (simp_all add: now_def)
  from calibrate_first[of alg "makeInput mode k" ?t0 ?e1] alg obtain c e2 where
    r: "calibrate alg (makeInput mode k) ?t0 ?t0 0 ?e1 = Inr (clock ?e1 (reads ?e1 + c - 1), c, e2)"
    and c: "1 \<le> c" and ce: "clock e2 = clock ?e1" by blast
  let ?bs = "computeBatchSize c (clock ?e1 (reads ?e1 + c - 1) - ?t0)"
  have "?t0 \<le> clock ?e1 (reads ?e1 + c - 1)" using mono c unfolding e1 by simp
  then have "1 \<le> ?bs"
    by (intro computeBatchSize_pos) simp
  then have nz: "?bs \<noteq> 0" by simp
  from measureLoop_ok[OF alg nz, of mode k its e2] obtain ts e3 where
    m: "measureLoop alg mode k ?bs its e2 = Inr (ts, e3)"
    and l: "length ts = its" and c3: "clock e3 = clock e2" by blast
  have "ts \<noteq> []" using l its by auto
  then show ?thesis
    unfolding measureSize_def Let_def using r m
    by (simp add: ss_mean_def c3 ce e1(1))
qed

lemma measureAll_ok:
  assumes alg: "\<forall>a. alg a" and its: "0 < its"
  shows "\<forall>i j. i \<le> j \<longrightarrow> clock e i \<le> clock e j \<Longrightarrow>
    \<exists>ds e'. measureAll alg mode its ks e = Inr (ds, e') \<and> map d_n ds = ks"
proof (induction ks arbitrary: e)
  case Nil then show ?case by simp
next
  case (Cons k ks)
  from measureSize_ok[OF alg Cons.prems its, of mode k] obtain d e1 where
    d: "measureSize alg mode its k e = Inr (d, e1)" "d_n d = k" "clock e1 = clock e" by blast
  have "\<forall>i j. i \<le> j \<longrightarrow> clock e1 i \<le> clock e1 j" using Cons.prems d(3) by simp
  from Cons.IH[OF this] obtain ds e2 where
    "measureAll alg mode its ks e1 = Inr (ds, e2)" "map d_n ds = ks" by blast
  then show ?case using d by simp
qed

text \<open>
  C7. \<open>runAnalysis\<close> on the empty list of sizes returns no data point and leaves the world
  as it was (no warmup, no invocation, no clock reading). On any list of sizes, with an
  algorithm that returns, a clock that does not run backwards and at least one iteration,
  it returns one data point per size, in the order of the sizes.
\<close>

theorem runAnalysis_one_sample_per_size:
  "runAnalysis alg [] its mode e = Inr ([], e) \<and>
   ((\<forall>a. alg a) \<and> (\<forall>i j. i \<le> j \<longrightarrow> clock e i \<le> clock e j) \<and> 0 < its \<longrightarrow>
      (\<exists>ds e'. runAnalysis alg ks its mode e = Inr (ds, e') \<and> map d_n ds = ks))"
proof (intro conjI impI)
  show "runAnalysis alg [] its mode e = Inr ([], e)" by (simp add: runAnalysis_def)
next
  assume a: "(\<forall>a. alg a) \<and> (\<forall>i j. i \<le> j \<longrightarrow> clock e i \<le> clock e j) \<and> 0 < its"
  define e1 where "e1 = (if length ks > 0 then e\<lparr>calls := calls e + 100\<rparr> else e)"
  have w: "(if length ks > 0 then repeatInvoke alg (makeInput mode (hd ks)) 100 e else Inr e) = Inr e1"
    using repeatInvoke_ok[of alg "makeInput mode (hd ks)" 100 e] a by (simp add: e1_def)
  have "\<forall>i j. i \<le> j \<longrightarrow> clock e1 i \<le> clock e1 j" using a by (simp add: e1_def)
  from measureAll_ok[OF _ _ this, of alg its mode ks] a obtain ds e' where
    "measureAll alg mode its ks e1 = Inr (ds, e')" "map d_n ds = ks" by blast
  then show "\<exists>ds e'. runAnalysis alg ks its mode e = Inr (ds, e') \<and> map d_n ds = ks"
    unfolding runAnalysis_def w by simp
qed

theorem runAnalysis_one_sample_per_size_witness:
  "\<exists>ds e'. runAnalysis (\<lambda>_. True) [10, 20] 1 ''array''
              \<lparr>clock = (\<lambda>i. 5 * real i), reads = 0, calls = 0\<rparr> = Inr (ds, e') \<and>
           map d_n ds = [10, 20]"
  using runAnalysis_one_sample_per_size
          [of "\<lambda>_. True" 1 "''array''" "\<lparr>clock = (\<lambda>i. 5 * real i), reads = 0, calls = 0\<rparr>" "[10, 20]"]
  by simp

text \<open>
  C9, as the claim states it, fails when the first invocation alone reaches the threshold:
  with the clock reading 0, 5, 10, ... (\<open>calStart = 0\<close> was the first reading) the
  calibration ends with \<open>calCount = 1\<close> and \<open>calDuration = 5\<close>, and the batch size is 1,
  not \<open>ceil (15 * 1 / 5) = 3\<close>, whether the quotient is the real or the double one.
\<close>

theorem computeBatchSize_single_call_counterexample:
  "calibrate alwaysReturns (NumberArg 10) 0 0 0 \<lparr>clock = stepClock, reads = 1, calls = 0\<rparr>
     = Inr (5, 1, \<lparr>clock = stepClock, reads = 2, calls = 1\<rparr>) \<and>
   computeBatchSize 1 (5 - 0) = 1 \<and>
   computeBatchSize 1 (5 - 0) \<noteq> max 1 \<lceil>(15 * real 1) / (5 - 0)\<rceil> \<and>
   computeBatchSize 1 (5 - 0) \<noteq> max 1 \<lceil>rnd64 ((15 * real 1) / (5 - 0))\<rceil>"
proof -
  have "calibrate alwaysReturns (NumberArg 10) 0 0 0 \<lparr>clock = stepClock, reads = 1, calls = 0\<rparr>
     = Inr (5, 1, \<lparr>clock = stepClock, reads = 2, calls = 1\<rparr>)"
    apply (subst calibrate.simps)
    apply (simp add: invoke_def now_def alwaysReturns_def stepClock_def)
    apply (subst calibrate.simps)
    apply simp
    done
  moreover have "computeBatchSize 1 (5 - 0) = 1" by (simp add: computeBatchSize_def)
  moreover have "max 1 \<lceil>(15 * real 1) / (5 - 0)\<rceil> = (3 :: int)" by simp
  moreover have "max 1 \<lceil>rnd64 ((15 * real 1) / (5 - 0))\<rceil> = (3 :: int)"
    by (simp add: rnd64_three)
  ultimately show ?thesis by simp
qed

text \<open>
  C9, amended. When the calibration needed more than one invocation (at most 1000000, the
  cap of the loop) and its duration is positive (between \<open>2^-1000\<close> and \<open>2^1023\<close>, where no
  quotient leaves the range of the doubles), the batch size is the ceiling of the double
  quotient \<open>15 * calCount / calDuration\<close>; it is at least 1 and lies between the ceilings
  of the exact quotient scaled by \<open>1 - 2^-53\<close> and by \<open>1 + 2^-53\<close>. When the duration is 0
  the divisor is the double \<open>0.001\<close>. When one invocation was enough, the batch size is 1
  whatever the duration.
\<close>

theorem computeBatchSize_formula:
  "(1 < calCount \<and> calCount \<le> 1000000 \<and> pow2 (- 1000) \<le> calDuration \<and> calDuration \<le> pow2 1023 \<longrightarrow>
      computeBatchSize calCount calDuration = \<lceil>rnd64 ((15 * real calCount) / calDuration)\<rceil> \<and>
      1 \<le> computeBatchSize calCount calDuration \<and>
      \<lceil>(15 * real calCount) / calDuration * (1 - 1 / 2 ^ 53)\<rceil>
        \<le> computeBatchSize calCount calDuration \<and>
      computeBatchSize calCount calDuration
        \<le> \<lceil>(15 * real calCount) / calDuration * (1 + 1 / 2 ^ 53)\<rceil>) \<and>
   (1 < calCount \<and> calDuration = 0 \<longrightarrow>
      computeBatchSize calCount calDuration =
        \<lceil>rnd64 ((15 * real calCount) / rnd64 (1 / 1000))\<rceil>) \<and>
   (calCount \<le> 1 \<longrightarrow> computeBatchSize calCount calDuration = 1)"
proof (intro conjI impI)
  assume a: "1 < calCount \<and> calCount \<le> 1000000 \<and> pow2 (- 1000) \<le> calDuration \<and>
             calDuration \<le> pow2 1023"
  then have d: "0 < calDuration" using pow2_pos[of "- 1000"] by linarith
  then have q: "0 < (15 * real calCount) / calDuration" using a by simp
  show e: "computeBatchSize calCount calDuration = \<lceil>rnd64 ((15 * real calCount) / calDuration)\<rceil>"
    using a d by (simp add: computeBatchSize_def)
  show "1 \<le> computeBatchSize calCount calDuration"
    using computeBatchSize_pos[of calDuration calCount] d by simp
  show "\<lceil>(15 * real calCount) / calDuration * (1 - 1 / 2 ^ 53)\<rceil>
          \<le> computeBatchSize calCount calDuration"
    unfolding e by (rule ceiling_mono) (rule rnd64_rel(1)[OF q])
  show "computeBatchSize calCount calDuration
          \<le> \<lceil>(15 * real calCount) / calDuration * (1 + 1 / 2 ^ 53)\<rceil>"
    unfolding e by (rule ceiling_mono) (rule rnd64_rel(2)[OF q])
next
  assume "1 < calCount \<and> calDuration = 0"
  then show "computeBatchSize calCount calDuration =
        \<lceil>rnd64 ((15 * real calCount) / rnd64 (1 / 1000))\<rceil>"
    by (simp add: computeBatchSize_def)
next
  assume "calCount \<le> 1"
  then show "computeBatchSize calCount calDuration = 1" by (simp add: computeBatchSize_def)
qed

theorem computeBatchSize_formula_witness:
  "computeBatchSize 4 (3752999689475413 / 562949953421312) = 9 \<and>
   computeBatchSize 1000000 0 = 15000000000 \<and> computeBatchSize 1 5 = 1"
proof -
  let ?d = "3752999689475413 / 562949953421312 :: real"
  have lo: "pow2 (- 1000) \<le> ?d"
  proof -
    have "pow2 (- 1000) \<le> pow2 0" by (rule pow2_mono) simp
    also have "\<dots> \<le> ?d" by (simp add: pow2_def)
    finally show ?thesis .
  qed
  have hi: "?d \<le> pow2 1023"
  proof -
    have "?d \<le> pow2 3" by (simp add: pow2_def)
    also have "\<dots> \<le> pow2 1023" by (rule pow2_mono) simp
    finally show ?thesis .
  qed
  have "computeBatchSize 4 ?d = \<lceil>rnd64 ((15 * real 4) / ?d)\<rceil>"
    using computeBatchSize_formula [of 4 ?d] lo hi by simp
  then have "computeBatchSize 4 ?d = 9" using rnd64_v16 by simp
  moreover have "computeBatchSize 1000000 0 = \<lceil>rnd64 ((15 * real 1000000) / rnd64 (1 / 1000))\<rceil>"
    using computeBatchSize_formula [of 1000000 0] by simp
  then have "computeBatchSize 1000000 0 = 15000000000"
    unfolding rnd64_milli using rnd64_cap by simp
  moreover have "computeBatchSize 1 5 = 1"
    using computeBatchSize_formula [of 1 5] by simp
  ultimately show ?thesis by (intro conjI)
qed

section \<open>The classifier on valid samples\<close>

lemma sum_sq_affine:
  fixes xs :: "real list"
  shows "sum_list (map (\<lambda>x. (a * x - s)\<^sup>2) xs) =
         a\<^sup>2 * sum_list (map (\<lambda>x. x * x) xs) - 2 * a * s * sum_list xs + real (length xs) * s\<^sup>2"
  by (induction xs) (simp_all add: algebra_simps power2_eq_square)

lemma regression_den_nonzero:
  fixes xs :: "real list"
  assumes d: "distinct xs" and l: "2 \<le> length xs"
  shows "real (length xs) * sum_list (map (\<lambda>x. x * x) xs) - sum_list xs * sum_list xs \<noteq> 0"
proof
  let ?N = "real (length xs)"
  let ?S = "sum_list xs"
  let ?Q = "sum_list (map (\<lambda>x. x * x) xs)"
  assume z: "?N * ?Q - ?S * ?S = 0"
  have "sum_list (map (\<lambda>x. (?N * x - ?S)\<^sup>2) xs) = ?N * (?N * ?Q - ?S * ?S)"
    unfolding sum_sq_affine by (simp add: algebra_simps power2_eq_square)
  then have "sum_list (map (\<lambda>x. (?N * x - ?S)\<^sup>2) xs) = 0" using z by simp
  then have "\<forall>y \<in> set (map (\<lambda>x. (?N * x - ?S)\<^sup>2) xs). y = 0"
    by (subst (asm) sum_list_nonneg_eq_0_iff) auto
  then have e: "\<forall>x \<in> set xs. ?N * x = ?S" by auto
  obtain a b zs where xs: "xs = a # b # zs" using l by (cases xs; cases "tl xs") auto
  have N: "?N \<noteq> 0" using l by auto
  have "?N * a = ?N * b" using e xs by auto
  then have "a = b" using N by simp
  then show False using d xs by simp
qed

lemma mapE_Inr: "\<forall>x \<in> set xs. f x = Inr (g x) \<Longrightarrow> mapE f xs = Inr (map g xs)"
  by (induction xs) simp_all

lemma zip_sums:
  "length xs = length ys \<Longrightarrow> map fst (zip xs ys) = xs"
  "length xs = length ys \<Longrightarrow> map (\<lambda>p. fst p * fst p) (zip xs ys) = map (\<lambda>x. x * x) xs"
  "length xs = length ys \<Longrightarrow> length (zip xs ys) = length xs"
  by (induction xs ys rule: list_induct2) simp_all

lemma ss_linearRegression_ok:
  fixes xs :: "real list"
  assumes "distinct xs" "2 \<le> length xs" "length xs = length ys"
  shows "\<exists>mb. ss_linearRegression (zip xs ys) = Inr mb"
proof -
  have "length (zip xs ys) \<noteq> 1" using assms by simp
  moreover have "real (length xs) * sum_list (map (\<lambda>x. x * x) xs) - sum_list xs * sum_list xs \<noteq> 0"
    using regression_den_nonzero[OF assms(1,2)] .
  ultimately show ?thesis
    unfolding ss_linearRegression_def Let_def using assms(3)
    by (simp add: zip_sums)
qed

lemma calculateRMSE_ok:
  "actual \<noteq> [] \<Longrightarrow> \<exists>r. calculateRMSE actual predicted = Inr r \<and> 0 \<le> r"
  unfolding calculateRMSE_def Let_def
  by (auto intro!: divide_nonneg_nonneg sum_list_nonneg)

lemma getRegressionRMSE_ok:
  assumes v: "validSamples dps" and f: "\<forall>d \<in> set dps. T (d_n d) = Inr (g (d_n d))"
    and inj: "inj_on g {k. 0 < k}"
  shows "\<exists>r. getRegressionRMSE T dps = Inr r \<and> 0 \<le> r"
proof -
  let ?xs = "map g (map d_n dps)"
  have m: "mapE T (map d_n dps) = Inr ?xs" using f by (intro mapE_Inr) simp
  have "inj_on g (set (map d_n dps))"
    using inj v unfolding validSamples_def by (auto intro: inj_on_subset)
  moreover have "distinct (map d_n dps)" using v unfolding validSamples_def by simp
  ultimately have dist: "distinct ?xs" by (subst distinct_map) simp
  have len: "2 \<le> length ?xs" "length ?xs = length (map d_time dps)"
    using v unfolding validSamples_def by simp_all
  from ss_linearRegression_ok[OF dist len] obtain mb where
    mb: "ss_linearRegression (zip ?xs (map d_time dps)) = Inr mb" by blast
  have ne: "map d_time dps \<noteq> []" using v unfolding validSamples_def by auto
  from calculateRMSE_ok[OF ne, of "map (ss_linearRegressionLine mb) ?xs"] show ?thesis
    by (simp only: getRegressionRMSE_def m sum.case mb)
qed

lemma inj_linear: "inj_on (\<lambda>k. real k) {k. 0 < k}"
  by (simp add: inj_on_def)

lemma inj_quadratic: "inj_on (\<lambda>k. (real k)\<^sup>2) {k. 0 < k}"
  by (auto simp: inj_on_def)

lemma inj_log: "inj_on (\<lambda>k. ln (real k)) {k. 0 < k}"
  by (auto simp: inj_on_def)

lemma nlogn_strict:
  assumes "0 < a" "a < (b::nat)"
  shows "real a * ln (real a) < real b * ln (real b)"
proof -
  have "0 \<le> ln (real a)" using assms by simp
  have "ln (real a) < ln (real b)" using assms by simp
  have "real a * ln (real a) \<le> real a * ln (real b)"
    using \<open>ln (real a) < ln (real b)\<close> assms by (intro mult_left_mono) simp_all
  also have "\<dots> < real b * ln (real b)"
    using assms \<open>0 \<le> ln (real a)\<close> \<open>ln (real a) < ln (real b)\<close> by (intro mult_strict_right_mono) simp_all
  finally show ?thesis .
qed

lemma inj_nlogn: "inj_on (\<lambda>k. real k * ln (real k)) {k. 0 < k}"
proof (rule inj_onI)
  fix a b :: nat assume a: "a \<in> {k. 0 < k}" and b: "b \<in> {k. 0 < k}"
    and e: "real a * ln (real a) = real b * ln (real b)"
  show "a = b"
  proof (rule ccontr)
    assume "a \<noteq> b"
    then consider "a < b" | "b < a" by linarith
    then show False
    proof cases
      case 1 then show False using nlogn_strict[of a b] a e by simp
    next
      case 2 then show False using nlogn_strict[of b a] b e by simp
    qed
  qed
qed

lemma fitModels_valid:
  assumes v: "validSamples dps"
  shows "\<exists>c l li nl q. fitModels dps = Inr (modelsOf c l li nl q) \<and>
           0 \<le> c \<and> 0 \<le> l \<and> 0 \<le> li \<and> 0 \<le> nl \<and> 0 \<le> q \<and>
           ss_mean (map d_time dps) = Inr (meanOf dps) \<and>
           calculateRMSE (map d_time dps) (map (\<lambda>_. meanOf dps) (map d_n dps)) = Inr c \<and>
           getRegressionRMSE logT dps = Inr l \<and> getRegressionRMSE linearT dps = Inr li \<and>
           getRegressionRMSE nLogNT dps = Inr nl \<and> getRegressionRMSE quadraticT dps = Inr q"
proof -
  have ne: "map d_time dps \<noteq> []" using v unfolding validSamples_def by auto
  have pos: "\<forall>d \<in> set dps. d_n d \<noteq> 0" using v unfolding validSamples_def by auto
  have mean: "ss_mean (map d_time dps) = Inr (meanOf dps)"
    using ne by (simp add: ss_mean_def meanOf_def)
  from calculateRMSE_ok[OF ne] obtain c where
    c: "calculateRMSE (map d_time dps) (map (\<lambda>_. meanOf dps) (map d_n dps)) = Inr c" "0 \<le> c" by blast
  from getRegressionRMSE_ok[OF v _ inj_linear, of linearT] obtain li where
    li: "getRegressionRMSE linearT dps = Inr li" "0 \<le> li" by (auto simp: linearT_def)
  from getRegressionRMSE_ok[OF v _ inj_quadratic, of quadraticT] obtain q where
    q: "getRegressionRMSE quadraticT dps = Inr q" "0 \<le> q" by (auto simp: quadraticT_def)
  from getRegressionRMSE_ok[OF v _ inj_log, of logT] pos obtain l where
    l: "getRegressionRMSE logT dps = Inr l" "0 \<le> l" by (auto simp: logT_def)
  from getRegressionRMSE_ok[OF v _ inj_nlogn, of nLogNT] pos obtain nl where
    nl: "getRegressionRMSE nLogNT dps = Inr nl" "0 \<le> nl" by (auto simp: nLogNT_def)
  have "fitModels dps = Inr (modelsOf c l li nl q)"
    by (simp only: fitModels_def mean sum.case c li q l nl)
  then show ?thesis using c li q l nl mean by blast
qed

lemma find_unique:
  "x \<in> set xs \<Longrightarrow> P x \<Longrightarrow> \<forall>y \<in> set xs. P y \<longrightarrow> y = x \<Longrightarrow> List.find P xs = Some x"
proof (induction xs)
  case Nil
  then show ?case by simp
next
  case (Cons a xs)
  show ?case
  proof (cases "P a")
    case True
    then have "a = x" using Cons.prems(3) by simp
    then show ?thesis using True by simp
  next
    case False
    then have "x \<in> set xs" using Cons.prems(1,2) by auto
    moreover have "\<forall>y \<in> set xs. P y \<longrightarrow> y = x" using Cons.prems(3) by simp
    ultimately have "List.find P xs = Some x" using Cons.IH Cons.prems(2) by blast
    then show ?thesis using False by simp
  qed
qed

lemma inc_o1:
  "includes_str ''O(1) - Constant'' ''O(1)''"
  "\<not> includes_str ''O(log n) - Logarithmic'' ''O(1)''"
  "\<not> includes_str ''O(n) - Linear'' ''O(1)''"
  "\<not> includes_str ''O(n log n) - Linear-ithmic'' ''O(1)''"
  "\<not> includes_str ''O(n^2) - Quadratic'' ''O(1)''"
  by simp_all

lemma inc_log:
  "\<not> includes_str ''O(1) - Constant'' ''O(log n)''"
  "includes_str ''O(log n) - Logarithmic'' ''O(log n)''"
  "\<not> includes_str ''O(n) - Linear'' ''O(log n)''"
  "\<not> includes_str ''O(n log n) - Linear-ithmic'' ''O(log n)''"
  "\<not> includes_str ''O(n^2) - Quadratic'' ''O(log n)''"
  by simp_all

lemma find_o1:
  "List.find (\<lambda>m. includes_str (m_type m) ''O(1)'') (sort_key m_rmse (modelsOf c l li nl q))
     = Some \<lparr>m_type = ''O(1) - Constant'', m_rmse = c, m_complexity = 1\<rparr>"
proof (rule find_unique)
  show "\<lparr>m_type = ''O(1) - Constant'', m_rmse = c, m_complexity = 1\<rparr>
          \<in> set (sort_key m_rmse (modelsOf c l li nl q))"
    unfolding set_sort modelsOf_def by (simp only: list.set insert_iff simp_thms)
  show "includes_str (m_type \<lparr>m_type = ''O(1) - Constant'', m_rmse = c, m_complexity = 1\<rparr>) ''O(1)''"
    unfolding model.select_convs by (rule inc_o1)
  show "\<forall>y\<in>set (sort_key m_rmse (modelsOf c l li nl q)).
       includes_str (m_type y) ''O(1)'' \<longrightarrow> y = \<lparr>m_type = ''O(1) - Constant'', m_rmse = c, m_complexity = 1\<rparr>"
    unfolding set_sort modelsOf_def
    by (simp only: list.set ball_simps model.select_convs inc_o1 simp_thms)
qed

lemma find_log:
  "List.find (\<lambda>m. includes_str (m_type m) ''O(log n)'') (sort_key m_rmse (modelsOf c l li nl q))
     = Some \<lparr>m_type = ''O(log n) - Logarithmic'', m_rmse = l, m_complexity = 2\<rparr>"
proof (rule find_unique)
  show "\<lparr>m_type = ''O(log n) - Logarithmic'', m_rmse = l, m_complexity = 2\<rparr>
          \<in> set (sort_key m_rmse (modelsOf c l li nl q))"
    unfolding set_sort modelsOf_def by (simp only: list.set insert_iff simp_thms)
  show "includes_str (m_type \<lparr>m_type = ''O(log n) - Logarithmic'', m_rmse = l, m_complexity = 2\<rparr>) ''O(log n)''"
    unfolding model.select_convs by (rule inc_log)
  show "\<forall>y\<in>set (sort_key m_rmse (modelsOf c l li nl q)).
       includes_str (m_type y) ''O(log n)'' \<longrightarrow> y = \<lparr>m_type = ''O(log n) - Logarithmic'', m_rmse = l, m_complexity = 2\<rparr>"
    unfolding set_sort modelsOf_def
    by (simp only: list.set ball_simps model.select_convs inc_log simp_thms)
qed





lemma length_modelsOf: "length (modelsOf c l li nl q) = 5"
  by (simp add: modelsOf_def)

lemma sorted_models_Cons:
  "\<exists>m0 rest. sort_key m_rmse (modelsOf c l li nl q) = m0 # rest"
proof -
  have "length (sort_key m_rmse (modelsOf c l li nl q)) = 5" by (simp add: length_modelsOf)
  then show ?thesis by (cases "sort_key m_rmse (modelsOf c l li nl q)") auto
qed

lemma determineComplexity_valid:
  assumes v: "validSamples dps"
  shows "\<exists>c l li nl q m0 rest. classifies dps c l li nl q m0 rest"
proof -
  from fitModels_valid[OF v] obtain c l li nl q where
    f: "fitModels dps = Inr (modelsOf c l li nl q)"
    and nn: "0 \<le> c" "0 \<le> l" "0 \<le> li" "0 \<le> nl" "0 \<le> q"
    and mean: "ss_mean (map d_time dps) = Inr (meanOf dps)"
    and c: "calculateRMSE (map d_time dps) (map (\<lambda>_. meanOf dps) (map d_n dps)) = Inr c"
    and l: "getRegressionRMSE logT dps = Inr l" "getRegressionRMSE linearT dps = Inr li"
      "getRegressionRMSE nLogNT dps = Inr nl" "getRegressionRMSE quadraticT dps = Inr q" by blast
  from sorted_models_Cons obtain m0 rest where
    s: "sort_key m_rmse (modelsOf c l li nl q) = m0 # rest" by blast
  have fo: "List.find (\<lambda>m. includes_str (m_type m) ''O(1)'') (m0 # rest)
     = Some \<lparr>m_type = ''O(1) - Constant'', m_rmse = c, m_complexity = 1\<rparr>"
    using find_o1[of c l li nl q] unfolding s .
  have fl: "List.find (\<lambda>m. includes_str (m_type m) ''O(log n)'') (m0 # rest)
     = Some \<lparr>m_type = ''O(log n) - Logarithmic'', m_rmse = l, m_complexity = 2\<rparr>"
    using find_log[of c l li nl q] unfolding s .
  have d: "determineComplexity dps = Inr
             (if meanOf dps < 1 / 10000 then
                \<lparr>bestFit = (if l < c then ''O(log n) - Logarithmic'' else ''O(1) - Constant''),
                 confidence = 95, results = shownOf (m0 # rest)\<rparr>
              else
                \<lparr>bestFit = m_type (foldl occamStep m0 rest),
                 confidence = round (standardConfidence (meanOf dps) (m0 # rest) (foldl occamStep m0 rest)),
                 results = shownOf (m0 # rest)\<rparr>)"
    unfolding determineComplexity_def
    apply (simp only: mean f sum.case Let_def s list.case fo fl prod.case option.case)
    apply (simp del: includes_str.simps find.simps sort_key_simps)
    done
  have "classifies dps c l li nl q m0 rest"
    unfolding classifies_def
    by (intro conjI f nn c l s d)
  then show ?thesis by blast
qed

lemma classifiesD:
  assumes "classifies dps c l li nl q m0 rest"
  shows "fitModels dps = Inr (modelsOf c l li nl q)"
    and "0 \<le> c" and "0 \<le> l" and "0 \<le> li" and "0 \<le> nl" and "0 \<le> q"
    and "calculateRMSE (map d_time dps) (map (\<lambda>_. meanOf dps) (map d_n dps)) = Inr c"
    and "getRegressionRMSE logT dps = Inr l" and "getRegressionRMSE linearT dps = Inr li"
    and "getRegressionRMSE nLogNT dps = Inr nl" and "getRegressionRMSE quadraticT dps = Inr q"
    and "sort_key m_rmse (modelsOf c l li nl q) = m0 # rest"
    and "determineComplexity dps = Inr
             (if meanOf dps < 1 / 10000 then
                \<lparr>bestFit = (if l < c then ''O(log n) - Logarithmic'' else ''O(1) - Constant''),
                 confidence = 95, results = shownOf (m0 # rest)\<rparr>
              else
                \<lparr>bestFit = m_type (foldl occamStep m0 rest),
                 confidence = round (standardConfidence (meanOf dps) (m0 # rest) (foldl occamStep m0 rest)),
                 results = shownOf (m0 # rest)\<rparr>)"
  using assms unfolding classifies_def by simp_all

lemma types_modelsOf: "map m_type (modelsOf c l li nl q) = catalogLabels"
  by (simp add: modelsOf_def catalogLabels_def)

lemma shownOf_props:
  assumes "sort_key m_rmse (modelsOf c l li nl q) = ms"
  shows "length (shownOf ms) = 5"
    and "sorted (map f_rmse (shownOf ms))"
    and "mset (map f_type (shownOf ms)) = mset catalogLabels"
    and "\<lparr>f_type = ''O(1) - Constant'', f_rmse = c\<rparr> \<in> set (shownOf ms)"
proof -
  show "length (shownOf ms) = 5" using assms[symmetric] by (simp add: shownOf_def length_modelsOf)
  show "sorted (map f_rmse (shownOf ms))" unfolding shownOf_def by (rule sorted_sort_key)
  have "map f_type (map (\<lambda>m. \<lparr>f_type = m_type m, f_rmse = m_rmse m\<rparr>) ms) = map m_type ms"
    by simp
  moreover have "mset (map f_type (shownOf ms)) =
      mset (map f_type (map (\<lambda>m. \<lparr>f_type = m_type m, f_rmse = m_rmse m\<rparr>) ms))"
    unfolding shownOf_def by (simp only: mset_map mset_sort)
  ultimately have "mset (map f_type (shownOf ms)) = mset (map m_type ms)" by (simp only:)
  also have "\<dots> = mset (map m_type (modelsOf c l li nl q))"
    using assms[symmetric] by simp
  finally show "mset (map f_type (shownOf ms)) = mset catalogLabels" by (simp only: types_modelsOf)
  have "\<lparr>m_type = ''O(1) - Constant'', m_rmse = c, m_complexity = 1\<rparr> \<in> set ms"
    unfolding assms[symmetric] set_sort modelsOf_def by (simp only: list.set insert_iff simp_thms)
  then have "(\<lambda>m. \<lparr>f_type = m_type m, f_rmse = m_rmse m\<rparr>)
               \<lparr>m_type = ''O(1) - Constant'', m_rmse = c, m_complexity = 1\<rparr> \<in> set (shownOf ms)"
    unfolding shownOf_def set_sort set_map by (rule imageI)
  then show "\<lparr>f_type = ''O(1) - Constant'', f_rmse = c\<rparr> \<in> set (shownOf ms)"
    by (simp only: model.select_convs)
qed

lemma occamStep_cases: "occamStep b x = b \<or> (occamStep b x = x \<and> m_complexity x < m_complexity b)"
  by (simp add: occamStep_def Let_def)

lemma foldl_occam_in: "foldl occamStep b xs \<in> set (b # xs)"
proof (induction xs arbitrary: b)
  case Nil then show ?case by simp
next
  case (Cons x xs)
  have "foldl occamStep (occamStep b x) xs \<in> set (occamStep b x # xs)" by (rule Cons.IH)
  then show ?case using occamStep_cases[of b x] by auto
qed

lemma foldl_occam_le: "m_complexity (foldl occamStep b xs) \<le> m_complexity b"
proof (induction xs arbitrary: b)
  case Nil then show ?case by simp
next
  case (Cons x xs)
  have "m_complexity (foldl occamStep (occamStep b x) xs) \<le> m_complexity (occamStep b x)"
    by (rule Cons.IH)
  also have "\<dots> \<le> m_complexity b" using occamStep_cases[of b x] by auto
  finally show ?case by simp
qed

lemma hd_filter_sorted:
  "sorted (map f xs) \<Longrightarrow> x \<in> set xs \<Longrightarrow> P x \<Longrightarrow> f (hd (filter P xs)) \<le> (f x :: nat)"
proof (induction xs)
  case Nil then show ?case by simp
next
  case (Cons a xs)
  show ?case
  proof (cases "P a")
    case True
    then show ?thesis using Cons.prems by auto
  next
    case False
    then have "x \<in> set xs" using Cons.prems by auto
    then show ?thesis using Cons False by simp
  qed
qed

lemma first_sorted_least_complexity:
  assumes s: "sort_key m_rmse (modelsOf c l li nl q) = m0 # rest"
    and m: "m \<in> set (modelsOf c l li nl q)"
    and mn: "\<forall>m' \<in> set (modelsOf c l li nl q). m_rmse m \<le> m_rmse m'"
  shows "m_complexity m0 \<le> m_complexity m"
proof -
  let ?ms = "modelsOf c l li nl q"
  have "m0 \<in> set (sort_key m_rmse ?ms)" unfolding s by simp
  then have m0: "m0 \<in> set ?ms" by (simp only: set_sort)
  have "sorted (map m_rmse (m0 # rest))" using sorted_sort_key[of m_rmse ?ms] s by simp
  moreover have "m \<in> set (sort_key m_rmse ?ms)" using m by (simp only: set_sort)
  then have "m \<in> set (m0 # rest)" unfolding s .
  ultimately have "m_rmse m0 \<le> m_rmse m" by auto
  then have e: "m_rmse m = m_rmse m0" using mn m0 by force
  have "filter (\<lambda>y. m_rmse y = m_rmse m0) (m0 # rest) = filter (\<lambda>y. m_rmse y = m_rmse m0) ?ms"
    using sort_key_stable[of m_rmse "m_rmse m0" ?ms] s by simp
  then have "filter (\<lambda>y. m_rmse y = m_rmse m0) ?ms = m0 # filter (\<lambda>y. m_rmse y = m_rmse m0) rest"
    by simp
  then have h: "hd (filter (\<lambda>y. m_rmse y = m_rmse m0) ?ms) = m0" by (simp only: list.sel)
  have "sorted (map m_complexity ?ms)" by (simp add: modelsOf_def)
  from hd_filter_sorted[OF this m, of "\<lambda>y. m_rmse y = m_rmse m0"] e
  show ?thesis unfolding h by simp
qed

section \<open>The classifier on the samples \<open>dA\<close>\<close>

lemma ln4: "ln (4::real) = 2 * ln 2"
  using ln_realpow[of "2::real" 2] by simp

lemma ln2_pos: "0 < ln (2::real)" by (simp add: ln_gt_zero)

lemma dA_linear: "getRegressionRMSE linearT dA = Inr (sqrt (50 / 21))"
  by (simp add: getRegressionRMSE_def dA_def linearT_def ss_linearRegression_def Let_def
      calculateRMSE_def ss_linearRegressionLine_def power2_eq_square)

lemma dA_quadratic: "getRegressionRMSE quadraticT dA = Inr (sqrt (128 / 63))"
  by (simp add: getRegressionRMSE_def dA_def quadraticT_def ss_linearRegression_def Let_def
      calculateRMSE_def ss_linearRegressionLine_def power2_eq_square)

lemma dA_log: "getRegressionRMSE logT dA = Inr (sqrt (49 / 18))"
  using ln2_pos
  by (simp add: getRegressionRMSE_def dA_def logT_def ss_linearRegression_def Let_def
      calculateRMSE_def ss_linearRegressionLine_def ln4 power2_eq_square)

lemma dA_nlogn: "getRegressionRMSE nLogNT dA = Inr (sqrt (13 / 6))"
  using ln2_pos
  by (simp add: getRegressionRMSE_def dA_def nLogNT_def ss_linearRegression_def Let_def
      calculateRMSE_def ss_linearRegressionLine_def ln4 power2_eq_square)

lemma dA_fit:
  "fitModels dA = Inr (modelsOf (sqrt (26 / 9)) (sqrt (49 / 18)) (sqrt (50 / 21)) (sqrt (13 / 6)) (sqrt (128 / 63)))"
  unfolding fitModels_def dA_linear dA_quadratic dA_log dA_nlogn
  by (simp add: dA_def ss_mean_def calculateRMSE_def power2_eq_square)

lemma scaled_sqrt: "0 \<le> k \<Longrightarrow> k * sqrt q = sqrt (k\<^sup>2 * q)"
  by (simp add: real_sqrt_mult)

lemma occam_close:
  assumes "0 < b"
  shows "((sqrt a - sqrt b) / sqrt b < 15 / 100) = (a < 529 / 400 * b)"
proof -
  have sb: "0 < sqrt b" using assms by simp
  have "((sqrt a - sqrt b) / sqrt b < 15 / 100) = (sqrt a - sqrt b < 15 / 100 * sqrt b)"
    using sb by (simp add: pos_divide_less_eq)
  also have "\<dots> = (sqrt a < 23 / 20 * sqrt b)" by auto
  also have "23 / 20 * sqrt b = sqrt ((23 / 20)\<^sup>2 * b)" by (rule scaled_sqrt) simp
  also have "(sqrt a < sqrt ((23 / 20)\<^sup>2 * b)) = (a < (23 / 20)\<^sup>2 * b)" by simp
  also have "(23 / 20 :: real)\<^sup>2 = 529 / 400" by (simp add: power2_eq_square)
  finally show ?thesis .
qed

lemma occamStep_sqrt:
  assumes "0 < b"
  shows "occamStep \<lparr>m_type = tb, m_rmse = sqrt b, m_complexity = kb\<rparr>
                   \<lparr>m_type = ta, m_rmse = sqrt a, m_complexity = ka\<rparr> =
         (if ka < kb \<and> a < 529 / 400 * b
          then \<lparr>m_type = ta, m_rmse = sqrt a, m_complexity = ka\<rparr>
          else \<lparr>m_type = tb, m_rmse = sqrt b, m_complexity = kb\<rparr>)"
proof -
  have "sqrt b \<noteq> 0" using assms by simp
  then show ?thesis
    unfolding occamStep_def Let_def model.select_convs
    by (simp only: if_False occam_close[OF assms]) auto
qed

lemma dA_sorted:
  "sort_key m_rmse mA =
     [\<lparr>m_type = ''O(n^2) - Quadratic'', m_rmse = sqrt (128 / 63), m_complexity = 5\<rparr>,
      \<lparr>m_type = ''O(n log n) - Linear-ithmic'', m_rmse = sqrt (13 / 6), m_complexity = 4\<rparr>,
      \<lparr>m_type = ''O(n) - Linear'', m_rmse = sqrt (50 / 21), m_complexity = 3\<rparr>,
      \<lparr>m_type = ''O(log n) - Logarithmic'', m_rmse = sqrt (49 / 18), m_complexity = 2\<rparr>,
      \<lparr>m_type = ''O(1) - Constant'', m_rmse = sqrt (26 / 9), m_complexity = 1\<rparr>]"
  by (simp add: modelsOf_def mA_def)

lemma dA_best:
  "foldl occamStep \<lparr>m_type = ''O(n^2) - Quadratic'', m_rmse = sqrt (128 / 63), m_complexity = 5\<rparr>
     [\<lparr>m_type = ''O(n log n) - Linear-ithmic'', m_rmse = sqrt (13 / 6), m_complexity = 4\<rparr>,
      \<lparr>m_type = ''O(n) - Linear'', m_rmse = sqrt (50 / 21), m_complexity = 3\<rparr>,
      \<lparr>m_type = ''O(log n) - Logarithmic'', m_rmse = sqrt (49 / 18), m_complexity = 2\<rparr>,
      \<lparr>m_type = ''O(1) - Constant'', m_rmse = sqrt (26 / 9), m_complexity = 1\<rparr>]
   = \<lparr>m_type = ''O(1) - Constant'', m_rmse = sqrt (26 / 9), m_complexity = 1\<rparr>"
  by (simp add: occamStep_sqrt)

lemma dA_fitQuality:
  "fitQualityOf (8 / 3) \<lparr>m_type = ''O(1) - Constant'', m_rmse = sqrt (26 / 9), m_complexity = 1\<rparr> = 0"
proof -
  have "4 / 3 = sqrt ((4 / 3)\<^sup>2 :: real)" by simp
  also have "\<dots> \<le> sqrt (26 / 9)" by (subst real_sqrt_le_iff) (simp add: power2_eq_square)
  finally have "(4 / 3 :: real) \<le> sqrt (26 / 9)" .
  then show ?thesis by (simp add: fitQualityOf_def Let_def field_simps)
qed

lemma dA_separation:
  "separationOf (sort_key m_rmse mA)
     \<lparr>m_type = ''O(1) - Constant'', m_rmse = sqrt (26 / 9), m_complexity = 1\<rparr>
   = (sqrt (128 / 63) - sqrt (26 / 9)) / sqrt (128 / 63)"
proof -
  have s: "sort_key m_rmse (sort_key m_rmse mA) = sort_key m_rmse mA"
    by (rule sort_key_id_if_sorted) (rule sorted_sort_key)
  have "sqrt (128 / 63) \<le> sqrt (26 / 9 :: real)" by (subst real_sqrt_le_iff) simp
  then have "(sqrt (128 / 63) - sqrt (26 / 9)) / sqrt (128 / 63) \<le> (1::real)"
    by (simp add: field_simps)
  then show ?thesis
    unfolding separationOf_def Let_def s unfolding dA_sorted
    by (simp del: real_sqrt_le_iff)
qed

lemma dA_round:
  "round (30 * ((sqrt (128 / 63) - sqrt (26 / 9)) / sqrt (128 / 63)) :: real) = - 6"
proof (rule round_unique)
  let ?q = "sqrt (128 / 63 :: real)" and ?c = "sqrt (26 / 9 :: real)"
  have q: "0 < ?q" by simp
  have "(71 / 60) * ?q = sqrt ((71 / 60)\<^sup>2 * (128 / 63))" by (rule scaled_sqrt) simp
  also have "\<dots> < ?c" by (subst real_sqrt_less_iff) (simp add: power2_eq_square)
  finally have a: "(71 / 60) * ?q < ?c" .
  have "?c < sqrt ((73 / 60)\<^sup>2 * (128 / 63))"
    by (subst real_sqrt_less_iff) (simp add: power2_eq_square)
  also have "\<dots> = (73 / 60) * ?q" by (rule scaled_sqrt[symmetric]) simp
  finally have b: "?c < (73 / 60) * ?q" .
  have e: "30 * ((?q - ?c) / ?q) = 30 - 30 * (?c / ?q)" using q by (simp add: field_simps)
  have lo: "?c / ?q < 73 / 60" using b q by (simp add: pos_divide_less_eq)
  have hi: "71 / 60 < ?c / ?q" using a q by (simp add: pos_less_divide_eq)
  show "real_of_int (- 6) > 30 * ((?q - ?c) / ?q) - 1 / 2" unfolding e using hi by simp
  show "real_of_int (- 6) \<le> 30 * ((?q - ?c) / ?q) + 1 / 2" unfolding e using lo by simp
qed

lemma dA_conf:
  "standardConfidence (8 / 3) sA
     \<lparr>m_type = ''O(1) - Constant'', m_rmse = sqrt (26 / 9), m_complexity = 1\<rparr>
   = 30 * ((sqrt (128 / 63) - sqrt (26 / 9)) / sqrt (128 / 63))"
proof -
  define X where "X = (sqrt (128 / 63) - sqrt (26 / 9 :: real)) / sqrt (128 / 63)"
  have "separationOf sA \<lparr>m_type = ''O(1) - Constant'', m_rmse = sqrt (26 / 9), m_complexity = 1\<rparr> = X"
    using dA_separation unfolding dA_sorted sA_def[symmetric] X_def .
  then have "standardConfidence (8 / 3) sA
     \<lparr>m_type = ''O(1) - Constant'', m_rmse = sqrt (26 / 9), m_complexity = 1\<rparr> = 30 * X"
    unfolding standardConfidence_def dA_fitQuality by simp
  then show ?thesis unfolding X_def .
qed

lemma dA_shown:
  "shownOf sA =
     [\<lparr>f_type = ''O(n^2) - Quadratic'', f_rmse = sqrt (128 / 63)\<rparr>,
      \<lparr>f_type = ''O(n log n) - Linear-ithmic'', f_rmse = sqrt (13 / 6)\<rparr>,
      \<lparr>f_type = ''O(n) - Linear'', f_rmse = sqrt (50 / 21)\<rparr>,
      \<lparr>f_type = ''O(log n) - Logarithmic'', f_rmse = sqrt (49 / 18)\<rparr>,
      \<lparr>f_type = ''O(1) - Constant'', f_rmse = sqrt (26 / 9)\<rparr>]"
  by (simp add: sA_def shownOf_def)

lemma dA_mean: "ss_mean (map d_time dA) = Inr (8 / 3)"
  by (simp add: ss_mean_def dA_def)

lemma dA_result:
  "determineComplexity dA = Inr \<lparr>bestFit = ''O(1) - Constant'', confidence = - 6,
     results =
       [\<lparr>f_type = ''O(n^2) - Quadratic'', f_rmse = sqrt (128 / 63)\<rparr>,
        \<lparr>f_type = ''O(n log n) - Linear-ithmic'', f_rmse = sqrt (13 / 6)\<rparr>,
        \<lparr>f_type = ''O(n) - Linear'', f_rmse = sqrt (50 / 21)\<rparr>,
        \<lparr>f_type = ''O(log n) - Logarithmic'', f_rmse = sqrt (49 / 18)\<rparr>,
        \<lparr>f_type = ''O(1) - Constant'', f_rmse = sqrt (26 / 9)\<rparr>]\<rparr>"
proof -
  have b: "foldl occamStep (hd sA) (tl sA) =
      \<lparr>m_type = ''O(1) - Constant'', m_rmse = sqrt (26 / 9), m_complexity = 1\<rparr>"
    unfolding sA_def list.sel by (rule dA_best)
  have c: "sA = hd sA # tl sA" by (simp add: sA_def)
  have ms: "sort_key m_rmse mA = hd sA # tl sA" using dA_sorted c unfolding sA_def[symmetric] by simp
  have nf: "\<not> (8 / 3 :: real) < 1 / 10000" by simp
  show ?thesis
    unfolding determineComplexity_def
    apply (simp only: dA_mean dA_fit mA_def[symmetric] sum.case Let_def ms list.case nf if_False b)
    apply (simp only: c[symmetric] dA_conf dA_round dA_shown model.select_convs)
    done
qed

section \<open>The claims about the classifier\<close>

text \<open>
  C5. For at least two samples with distinct positive sizes, the classifier returns a result
  whose fits are five, one per label of the catalog, in non-decreasing order of RMSE.
\<close>

theorem results_five_sorted:
  assumes "validSamples dataPoints"
  shows "\<exists>r. determineComplexity dataPoints = Inr r \<and> length (results r) = 5 \<and>
             sorted (map f_rmse (results r)) \<and>
             mset (map f_type (results r)) = mset catalogLabels"
proof -
  from determineComplexity_valid[OF assms] obtain c l li nl q m0 rest where
    H: "classifies dataPoints c l li nl q m0 rest" by blast
  note s = classifiesD(12)[OF H] and d = classifiesD(13)[OF H]
  obtain r where r: "determineComplexity dataPoints = Inr r" "results r = shownOf (m0 # rest)"
    using d by (cases "meanOf dataPoints < 1 / 10000") simp_all
  show ?thesis using shownOf_props(1-3)[OF s] r by simp
qed

theorem results_five_sorted_witness:
  "\<exists>r. determineComplexity dA = Inr r \<and> length (results r) = 5 \<and>
       sorted (map f_rmse (results r)) \<and> mset (map f_type (results r)) = mset catalogLabels"
  using results_five_sorted [of dA] by (simp add: validSamples_def dA_def)




lemma valid_dA: "validSamples dA" by (simp add: validSamples_def dA_def)

lemma standard_dA: "\<not> meanOf dA < 1 / 10000" by (simp add: meanOf_def dA_def)

text \<open>
  C10. In the standard regime (mean time not below 0.0001), for at least two samples with
  distinct positive sizes, the best fit is one of the five fitted models and its complexity
  rank is at most that of every model of globally minimal RMSE.
\<close>

theorem tie_break_never_more_complex:
  assumes "validSamples dataPoints" and "\<not> meanOf dataPoints < 1 / 10000"
  shows "\<exists>r ms b. determineComplexity dataPoints = Inr r \<and> fitModels dataPoints = Inr ms \<and>
           b \<in> set ms \<and> bestFit r = m_type b \<and>
           (\<forall>m \<in> set ms. (\<forall>m' \<in> set ms. m_rmse m \<le> m_rmse m') \<longrightarrow>
               m_complexity b \<le> m_complexity m)"
proof -
  from determineComplexity_valid[OF assms(1)] obtain c l li nl q m0 rest where
    H: "classifies dataPoints c l li nl q m0 rest" by blast
  note f = classifiesD(1)[OF H] and s = classifiesD(12)[OF H]
  let ?ms = "modelsOf c l li nl q"
  let ?b = "foldl occamStep m0 rest"
  let ?r = "\<lparr>bestFit = m_type ?b,
             confidence = round (standardConfidence (meanOf dataPoints) (m0 # rest) ?b),
             results = shownOf (m0 # rest)\<rparr>"
  have d: "determineComplexity dataPoints = Inr ?r"
    using classifiesD(13)[OF H] assms(2) by (simp only: if_False)
  have "?b \<in> set (sort_key m_rmse ?ms)" unfolding s by (rule foldl_occam_in)
  then have b: "?b \<in> set ?ms" by (simp only: set_sort)
  have le: "m_complexity ?b \<le> m_complexity m"
    if "m \<in> set ?ms" "\<forall>m' \<in> set ?ms. m_rmse m \<le> m_rmse m'" for m
    using foldl_occam_le[of m0 rest] first_sorted_least_complexity[OF s that] by simp
  have "determineComplexity dataPoints = Inr ?r \<and> fitModels dataPoints = Inr ?ms \<and>
           ?b \<in> set ?ms \<and> bestFit ?r = m_type ?b \<and>
           (\<forall>m \<in> set ?ms. (\<forall>m' \<in> set ?ms. m_rmse m \<le> m_rmse m') \<longrightarrow>
               m_complexity ?b \<le> m_complexity m)"
    using d f b le by (simp only: classification.select_convs simp_thms) blast
  then show ?thesis by (intro exI)
qed

theorem tie_break_never_more_complex_witness:
  "\<exists>r b. determineComplexity dA = Inr r \<and> b \<in> set mA \<and> bestFit r = m_type b \<and>
         m_complexity b \<le> 5"
proof -
  from tie_break_never_more_complex [of dA] valid_dA standard_dA obtain r ms b where
    r: "determineComplexity dA = Inr r" and ms: "fitModels dA = Inr ms"
    and b: "b \<in> set ms" "bestFit r = m_type b"
    and le: "\<forall>m \<in> set ms. (\<forall>m' \<in> set ms. m_rmse m \<le> m_rmse m') \<longrightarrow>
               m_complexity b \<le> m_complexity m"
    by blast
  have e: "ms = mA" using ms dA_fit unfolding mA_def by simp
  let ?q = "\<lparr>m_type = ''O(n^2) - Quadratic'', m_rmse = sqrt (128 / 63), m_complexity = 5\<rparr>"
  have q: "?q \<in> set mA" unfolding mA_def modelsOf_def by (simp only: list.set insert_iff simp_thms)
  have mn: "\<forall>m' \<in> set mA. m_rmse ?q \<le> m_rmse m'" by (simp add: mA_def modelsOf_def)
  have "m_complexity b \<le> m_complexity ?q" using le q mn unfolding e by blast
  then have "m_complexity b \<le> 5" by simp
  then show ?thesis using r b unfolding e by blast
qed

lemma specStep_sqrt:
  assumes "0 < b"
  shows "specStep \<lparr>m_type = tb, m_rmse = sqrt b, m_complexity = kb\<rparr>
                  \<lparr>m_type = ta, m_rmse = sqrt a, m_complexity = ka\<rparr> =
         (if ka < kb \<and> a < 529 / 400 * b
          then \<lparr>m_type = ta, m_rmse = sqrt a, m_complexity = ka\<rparr>
          else \<lparr>m_type = tb, m_rmse = sqrt b, m_complexity = kb\<rparr>)"
  unfolding specStep_def model.select_convs by (simp only: occam_close[OF assms])

lemma dA_rank_scan: "m_type (rankOrderScan mA) = ''O(n) - Linear''"
proof -
  have c: "sort_key m_complexity mA = mA" by (simp add: mA_def modelsOf_def)
  have "rankOrderScan mA = foldl specStep (hd sA) mA"
    unfolding rankOrderScan_def c using dA_sorted unfolding sA_def[symmetric] by simp
  also have "\<dots> = \<lparr>m_type = ''O(n) - Linear'', m_rmse = sqrt (50 / 21), m_complexity = 3\<rparr>"
    by (simp add: sA_def mA_def modelsOf_def specStep_sqrt)
  finally show ?thesis by simp
qed

text \<open>
  C2, as the claim states it, fails on the samples \<open>dA\<close>: a scan in ascending rank from the
  model of lowest RMSE (quadratic) rejects constant and logarithmic, promotes linear and
  stops there, while the source, which visits the candidates in ascending RMSE, promotes
  linearithmic, linear, logarithmic and constant in turn and answers constant.
\<close>

theorem rank_order_scan_counterexample:
  "fitModels dA = Inr mA \<and> sort_key m_rmse mA = sA \<and>
   m_type (rankOrderScan mA) = ''O(n) - Linear'' \<and>
   m_type (foldl occamStep (hd sA) (tl sA)) = ''O(1) - Constant'' \<and>
   determineComplexity dA =
     Inr \<lparr>bestFit = ''O(1) - Constant'', confidence = - 6, results = shownOf sA\<rparr>"
proof -
  have "fitModels dA = Inr mA" using dA_fit unfolding mA_def .
  moreover have "sort_key m_rmse mA = sA" using dA_sorted unfolding sA_def[symmetric] .
  moreover have "m_type (foldl occamStep (hd sA) (tl sA)) = ''O(1) - Constant''"
    unfolding sA_def list.sel dA_best by simp
  moreover have "determineComplexity dA =
     Inr \<lparr>bestFit = ''O(1) - Constant'', confidence = - 6, results = shownOf sA\<rparr>"
    using dA_result unfolding dA_shown[symmetric] .
  ultimately show ?thesis using dA_rank_scan by (intro conjI)
qed

lemma occamStep_rule:
  "occamStep best candidate =
     (if m_complexity candidate < m_complexity best \<and>
         (m_rmse candidate - m_rmse best) /
           (if m_rmse best = 0 then 1 / 1000000000 else m_rmse best) < 15 / 100
      then candidate else best)"
  by (simp add: occamStep_def Let_def)

text \<open>
  C2, amended. In the standard regime, for at least two samples with distinct positive
  sizes, the best fit is found by scanning the five fits in ascending order of RMSE,
  starting from the first: a candidate of lower rank than the current best is promoted
  when \<open>(candidate.rmse - best.rmse) / best.rmse < 0.15\<close>, the divisor being
  \<open>0.000000001\<close> when \<open>best.rmse\<close> is 0.
\<close>

theorem tie_break_scans_in_rmse_order:
  assumes "validSamples dataPoints" and "\<not> meanOf dataPoints < 1 / 10000"
  shows "\<exists>r ms m0 rest.
           determineComplexity dataPoints = Inr r \<and> fitModels dataPoints = Inr ms \<and>
           mset (m0 # rest) = mset ms \<and> sorted (map m_rmse (m0 # rest)) \<and>
           bestFit r = m_type (foldl occamStep m0 rest) \<and>
           (\<forall>best candidate. occamStep best candidate =
              (if m_complexity candidate < m_complexity best \<and>
                  (m_rmse candidate - m_rmse best) /
                    (if m_rmse best = 0 then 1 / 1000000000 else m_rmse best) < 15 / 100
               then candidate else best))"
proof -
  from determineComplexity_valid[OF assms(1)] obtain c l li nl q m0 rest where
    H: "classifies dataPoints c l li nl q m0 rest" by blast
  note f = classifiesD(1)[OF H] and s = classifiesD(12)[OF H]
  let ?ms = "modelsOf c l li nl q"
  let ?b = "foldl occamStep m0 rest"
  let ?r = "\<lparr>bestFit = m_type ?b,
             confidence = round (standardConfidence (meanOf dataPoints) (m0 # rest) ?b),
             results = shownOf (m0 # rest)\<rparr>"
  have d: "determineComplexity dataPoints = Inr ?r"
    using classifiesD(13)[OF H] assms(2) by (simp only: if_False)
  have m: "mset (m0 # rest) = mset ?ms" using mset_sort[of m_rmse ?ms] unfolding s .
  have so: "sorted (map m_rmse (m0 # rest))" using sorted_sort_key[of m_rmse ?ms] unfolding s .
  have "determineComplexity dataPoints = Inr ?r \<and> fitModels dataPoints = Inr ?ms \<and>
           mset (m0 # rest) = mset ?ms \<and> sorted (map m_rmse (m0 # rest)) \<and>
           bestFit ?r = m_type (foldl occamStep m0 rest) \<and>
           (\<forall>best candidate. occamStep best candidate =
              (if m_complexity candidate < m_complexity best \<and>
                  (m_rmse candidate - m_rmse best) /
                    (if m_rmse best = 0 then 1 / 1000000000 else m_rmse best) < 15 / 100
               then candidate else best))"
    using d f m so occamStep_rule by (simp only: classification.select_convs simp_thms)
  then show ?thesis by (intro exI)
qed

theorem tie_break_scans_in_rmse_order_witness:
  "\<exists>r m0 rest. determineComplexity dA = Inr r \<and> mset (m0 # rest) = mset mA \<and>
        sorted (map m_rmse (m0 # rest)) \<and> bestFit r = m_type (foldl occamStep m0 rest)"
proof -
  from tie_break_scans_in_rmse_order [of dA] valid_dA standard_dA obtain r ms m0 rest where
    r: "determineComplexity dA = Inr r" and ms: "fitModels dA = Inr ms"
    and o: "mset (m0 # rest) = mset ms" "sorted (map m_rmse (m0 # rest))"
      "bestFit r = m_type (foldl occamStep m0 rest)"
    by blast
  have e: "ms = mA" using ms dA_fit unfolding mA_def by simp
  show ?thesis using r o unfolding e by blast
qed

text \<open>
  C4 at the samples \<open>dA\<close> (valid, standard regime): the tie-break promotes the constant
  model over four models of lower RMSE, the fit quality is 0, the separation from the
  model of lowest RMSE is negative, and the confidence returned is -6.
\<close>

theorem negative_confidence:
  "determineComplexity dA =
     Inr \<lparr>bestFit = ''O(1) - Constant'', confidence = - 6, results = shownOf sA\<rparr> \<and>
   fitQualityOf (8 / 3) \<lparr>m_type = ''O(1) - Constant'', m_rmse = sqrt (26 / 9), m_complexity = 1\<rparr> = 0 \<and>
   separationOf sA \<lparr>m_type = ''O(1) - Constant'', m_rmse = sqrt (26 / 9), m_complexity = 1\<rparr> < 0"
proof -
  have "determineComplexity dA =
     Inr \<lparr>bestFit = ''O(1) - Constant'', confidence = - 6, results = shownOf sA\<rparr>"
    using dA_result unfolding dA_shown[symmetric] .
  moreover have "separationOf sA \<lparr>m_type = ''O(1) - Constant'', m_rmse = sqrt (26 / 9), m_complexity = 1\<rparr> < 0"
  proof -
    have "sqrt (128 / 63) < sqrt (26 / 9 :: real)" by (subst real_sqrt_less_iff) simp
    then have "(sqrt (128 / 63) - sqrt (26 / 9 :: real)) / sqrt (128 / 63) < 0"
      by (simp add: field_simps)
    then show ?thesis using dA_separation unfolding dA_sorted sA_def[symmetric] by simp
  qed
  ultimately show ?thesis using dA_fitQuality by (intro conjI)
qed

lemma valid_dN: "validSamples dN" by (simp add: validSamples_def dN_def)

lemma dN_values:
  "calculateRMSE (map d_time dN) (map (\<lambda>_. meanOf dN) (map d_n dN)) = Inr 2"
  "getRegressionRMSE logT dN = Inr 0"
  "getRegressionRMSE linearT dN = Inr 0"
  "getRegressionRMSE nLogNT dN = Inr 0"
  "getRegressionRMSE quadraticT dN = Inr 0"
  using ln2_pos
  by (simp_all add: getRegressionRMSE_def dN_def meanOf_def logT_def linearT_def nLogNT_def
      quadraticT_def ss_linearRegression_def Let_def calculateRMSE_def ss_linearRegressionLine_def
      power2_eq_square)

lemma dN_result:
  "determineComplexity dN = Inr \<lparr>bestFit = ''O(log n) - Logarithmic'', confidence = 95,
     results =
       [\<lparr>f_type = ''O(log n) - Logarithmic'', f_rmse = 0\<rparr>,
        \<lparr>f_type = ''O(n) - Linear'', f_rmse = 0\<rparr>,
        \<lparr>f_type = ''O(n log n) - Linear-ithmic'', f_rmse = 0\<rparr>,
        \<lparr>f_type = ''O(n^2) - Quadratic'', f_rmse = 0\<rparr>,
        \<lparr>f_type = ''O(1) - Constant'', f_rmse = 2\<rparr>]\<rparr>"
proof -
  from determineComplexity_valid[OF valid_dN] obtain c l li nl q m0 rest where
    H: "classifies dN c l li nl q m0 rest" by blast
  have v: "c = 2" "l = 0" "li = 0" "nl = 0" "q = 0"
    using classifiesD(7-11)[OF H] unfolding dN_values by simp_all
  have s: "m0 # rest = sort_key m_rmse (modelsOf 2 0 0 0 0)"
    using classifiesD(12)[OF H] unfolding v by simp
  have sh: "shownOf (m0 # rest) =
       [\<lparr>f_type = ''O(log n) - Logarithmic'', f_rmse = 0\<rparr>,
        \<lparr>f_type = ''O(n) - Linear'', f_rmse = 0\<rparr>,
        \<lparr>f_type = ''O(n log n) - Linear-ithmic'', f_rmse = 0\<rparr>,
        \<lparr>f_type = ''O(n^2) - Quadratic'', f_rmse = 0\<rparr>,
        \<lparr>f_type = ''O(1) - Constant'', f_rmse = 2\<rparr>]"
    unfolding s by (simp add: modelsOf_def shownOf_def)
  have m: "meanOf dN < 1 / 10000" by (simp add: meanOf_def dN_def)
  show ?thesis
    using classifiesD(13)[OF H] unfolding v sh using m by simp
qed

lemma dOne_values:
  "calculateRMSE (map d_time dOne) (map (\<lambda>_. 5) (map d_n dOne)) = Inr 0"
  "getRegressionRMSE logT dOne = Inr 0"
  "getRegressionRMSE linearT dOne = Inr 0"
  "getRegressionRMSE nLogNT dOne = Inr 0"
  "getRegressionRMSE quadraticT dOne = Inr 0"
  by (simp_all add: getRegressionRMSE_def dOne_def logT_def linearT_def nLogNT_def
      quadraticT_def ss_linearRegression_def Let_def calculateRMSE_def ss_linearRegressionLine_def)

lemma dOne_mean: "ss_mean (map d_time dOne) = Inr 5"
  by (simp add: ss_mean_def dOne_def)

lemma dOne_fit: "fitModels dOne = Inr (modelsOf 0 0 0 0 0)"
  unfolding fitModels_def by (simp only: dOne_mean sum.case dOne_values)

lemma dOne_sorted: "sort_key m_rmse (modelsOf 0 0 0 0 0) = modelsOf 0 0 0 0 0"
  by (rule sort_key_id_if_sorted) (simp add: modelsOf_def)

lemma dOne_best:
  "foldl occamStep (hd (modelsOf 0 0 0 0 0)) (tl (modelsOf 0 0 0 0 0)) = hd (modelsOf 0 0 0 0 0)"
  by (simp add: modelsOf_def occamStep_def)

lemma dOne_conf:
  "standardConfidence 5 (modelsOf 0 0 0 0 0) (hd (modelsOf 0 0 0 0 0)) = 70"
  unfolding standardConfidence_def separationOf_def Let_def dOne_sorted
  by (simp add: modelsOf_def fitQualityOf_def)

lemma dOne_result:
  "determineComplexity dOne = Inr \<lparr>bestFit = ''O(1) - Constant'', confidence = 70,
     results =
       [\<lparr>f_type = ''O(1) - Constant'', f_rmse = 0\<rparr>,
        \<lparr>f_type = ''O(log n) - Logarithmic'', f_rmse = 0\<rparr>,
        \<lparr>f_type = ''O(n) - Linear'', f_rmse = 0\<rparr>,
        \<lparr>f_type = ''O(n log n) - Linear-ithmic'', f_rmse = 0\<rparr>,
        \<lparr>f_type = ''O(n^2) - Quadratic'', f_rmse = 0\<rparr>]\<rparr>"
proof -
  have c: "modelsOf 0 0 0 0 0 = hd (modelsOf 0 0 0 0 0) # tl (modelsOf 0 0 0 0 0)"
    by (simp add: modelsOf_def)
  have ms: "sort_key m_rmse (modelsOf 0 0 0 0 0) = hd (modelsOf 0 0 0 0 0) # tl (modelsOf 0 0 0 0 0)"
    using dOne_sorted c by simp
  have nf: "\<not> (5 :: real) < 1 / 10000" by simp
  have sh: "shownOf (modelsOf 0 0 0 0 0) =
       [\<lparr>f_type = ''O(1) - Constant'', f_rmse = 0\<rparr>,
        \<lparr>f_type = ''O(log n) - Logarithmic'', f_rmse = 0\<rparr>,
        \<lparr>f_type = ''O(n) - Linear'', f_rmse = 0\<rparr>,
        \<lparr>f_type = ''O(n log n) - Linear-ithmic'', f_rmse = 0\<rparr>,
        \<lparr>f_type = ''O(n^2) - Quadratic'', f_rmse = 0\<rparr>]"
    by (simp add: modelsOf_def shownOf_def)
  have t: "m_type (hd (modelsOf 0 0 0 0 0)) = ''O(1) - Constant''" by (simp add: modelsOf_def)
  show ?thesis
    unfolding determineComplexity_def
    apply (simp only: dOne_mean dOne_fit sum.case Let_def ms list.case nf if_False dOne_best)
    apply (simp only: c[symmetric] dOne_conf sh t round_numeral)
    done
qed

text \<open>
  C6, as the claim states it, fails on the samples \<open>dN\<close>, whose first time is -3: the sample
  is neither dropped (one valid sample would remain, and the degenerate result be due) nor
  clamped (the constant fit would have RMSE 0.5): the mean is -1, the constant fit has
  RMSE 2, and the result is a full classification.
\<close>

theorem negative_time_counterexample:
  "map d_time dN = [- 3, 1] \<and> meanOf dN = - 1 \<and>
   determineComplexity dN = Inr \<lparr>bestFit = ''O(log n) - Logarithmic'', confidence = 95,
     results =
       [\<lparr>f_type = ''O(log n) - Logarithmic'', f_rmse = 0\<rparr>,
        \<lparr>f_type = ''O(n) - Linear'', f_rmse = 0\<rparr>,
        \<lparr>f_type = ''O(n log n) - Linear-ithmic'', f_rmse = 0\<rparr>,
        \<lparr>f_type = ''O(n^2) - Quadratic'', f_rmse = 0\<rparr>,
        \<lparr>f_type = ''O(1) - Constant'', f_rmse = 2\<rparr>]\<rparr>"
proof -
  have "map d_time dN = [- 3, 1]" by (simp add: dN_def)
  moreover have "meanOf dN = - 1" by (simp add: meanOf_def dN_def)
  ultimately show ?thesis using dN_result by (intro conjI)
qed

lemma types_sorted_models:
  assumes "sort_key m_rmse (modelsOf c l li nl q) = ms"
  shows "set (map m_type ms) = set catalogLabels"
proof -
  have "set (map m_type ms) = m_type ` set (sort_key m_rmse (modelsOf c l li nl q))"
    unfolding assms by simp
  also have "\<dots> = set (map m_type (modelsOf c l li nl q))" by (simp only: set_sort set_map)
  finally show ?thesis by (simp only: types_modelsOf)
qed

lemma zip_const_sum:
  "length ts = length ns \<Longrightarrow>
   sum_list (map (\<lambda>(val, p). (val - p)\<^sup>2) (zip ts (map (\<lambda>_. mu) ns))) =
   sum_list (map (\<lambda>t. (t - mu)\<^sup>2) ts)"
  by (induction ts ns rule: list_induct2) simp_all

lemma zip_line_sum:
  "length ts = length xs \<Longrightarrow>
   sum_list (map (\<lambda>(val, p). (val - p)\<^sup>2) (zip ts (map f xs))) =
   sum_list (map (\<lambda>(x, t). (t - f x)\<^sup>2) (zip xs ts))"
  by (induction ts xs rule: list_induct2) simp_all

lemma zip_more_sums:
  "length xs = length ys \<Longrightarrow> map snd (zip xs ys) = ys"
  "length xs = length ys \<Longrightarrow>
     sum_list (map (\<lambda>p. fst p * snd p) (zip xs ys)) = sum_list (map (\<lambda>(x, t). x * t) (zip xs ys))"
  by (induction xs ys rule: list_induct2) simp_all

lemma calculateRMSE_flat:
  assumes "dps \<noteq> []"
  shows "calculateRMSE (map d_time dps) (map (\<lambda>_. meanOf dps) (map d_n dps))
           = Inr (flatRMSE (map d_time dps))"
proof -
  have "sum_list (map (\<lambda>(val, p). (val - p)\<^sup>2) (zip (map d_time dps) (map (\<lambda>_. meanOf dps) (map d_n dps))))
      = sum_list (map (\<lambda>t. (t - meanOf dps)\<^sup>2) (map d_time dps))"
    by (rule zip_const_sum) simp
  then show ?thesis using assms
    unfolding calculateRMSE_def Let_def flatRMSE_def meanOf_def by simp
qed

lemma getRegressionRMSE_lsq:
  assumes v: "validSamples dps" and f: "\<forall>d \<in> set dps. T (d_n d) = Inr (g (d_n d))"
    and inj: "inj_on g {k. 0 < k}"
  shows "getRegressionRMSE T dps = Inr (lsqRMSE (map g (map d_n dps)) (map d_time dps))"
proof -
  let ?xs = "map g (map d_n dps)" and ?ts = "map d_time dps"
  have m: "mapE T (map d_n dps) = Inr ?xs" using f by (intro mapE_Inr) simp
  have "inj_on g (set (map d_n dps))"
    using inj v unfolding validSamples_def by (auto intro: inj_on_subset)
  moreover have "distinct (map d_n dps)" using v unfolding validSamples_def by simp
  ultimately have dist: "distinct ?xs" by (subst distinct_map) simp
  have len: "2 \<le> length ?xs" "length ?xs = length ?ts"
    using v unfolding validSamples_def by simp_all
  have den: "real (length ?xs) * sum_list (map (\<lambda>x. x * x) ?xs) - sum_list ?xs * sum_list ?xs \<noteq> 0"
    by (rule regression_den_nonzero[OF dist len(1)])
  have l1: "length (zip ?xs ?ts) \<noteq> 1" using len by simp
  define slope where "slope = (real (length ?xs) * sum_list (map (\<lambda>(x, t). x * t) (zip ?xs ?ts))
       - sum_list ?xs * sum_list ?ts) / (real (length ?xs) * sum_list (map (\<lambda>x. x * x) ?xs) - sum_list ?xs * sum_list ?xs)"
  define intercept where "intercept = sum_list ?ts / real (length ?xs) - slope * sum_list ?xs / real (length ?xs)"
  have reg: "ss_linearRegression (zip ?xs ?ts) = Inr (slope, intercept)"
    unfolding ss_linearRegression_def Let_def
    using l1 den
    by (simp only: zip_sums[OF len(2)] zip_more_sums[OF len(2)] if_False slope_def intercept_def)
  have ne: "?ts \<noteq> []" using len by auto
  have "calculateRMSE ?ts (map (ss_linearRegressionLine (slope, intercept)) ?xs)
        = Inr (sqrt (sum_list (map (\<lambda>(x, t). (t - (intercept + slope * x))\<^sup>2) (zip ?xs ?ts)) / real (length ?xs)))"
    unfolding calculateRMSE_def Let_def
    using ne zip_line_sum[of ?ts ?xs "ss_linearRegressionLine (slope, intercept)"] len(2)
    by (simp add: ss_linearRegressionLine_def)
  then have "getRegressionRMSE T dps
        = Inr (sqrt (sum_list (map (\<lambda>(x, t). (t - (intercept + slope * x))\<^sup>2) (zip ?xs ?ts)) / real (length ?xs)))"
    by (simp only: getRegressionRMSE_def m sum.case reg)
  also have "\<dots> = Inr (lsqRMSE ?xs ?ts)"
    unfolding lsqRMSE_def Let_def slope_def intercept_def by simp
  finally show ?thesis .
qed

lemma classifies_raw:
  assumes v: "validSamples dps" and H: "classifies dps c l li nl q m0 rest"
  shows "modelsOf c l li nl q = rawModels dps"
    and "c = flatRMSE (map d_time dps)"
    and "l = lsqRMSE (map (\<lambda>d. ln (real (d_n d))) dps) (map d_time dps)"
proof -
  have ne: "dps \<noteq> []" using v unfolding validSamples_def by auto
  have pos: "\<forall>d \<in> set dps. d_n d \<noteq> 0" using v unfolding validSamples_def by auto
  have c: "c = flatRMSE (map d_time dps)"
    using classifiesD(7)[OF H] calculateRMSE_flat[OF ne] by simp
  have l: "l = lsqRMSE (map (\<lambda>k. ln (real k)) (map d_n dps)) (map d_time dps)"
    using classifiesD(8)[OF H] getRegressionRMSE_lsq[OF v _ inj_log, of logT] pos
    by (simp add: logT_def)
  have li: "li = lsqRMSE (map (\<lambda>k. real k) (map d_n dps)) (map d_time dps)"
    using classifiesD(9)[OF H] getRegressionRMSE_lsq[OF v _ inj_linear, of linearT]
    by (simp add: linearT_def)
  have nl: "nl = lsqRMSE (map (\<lambda>k. real k * ln (real k)) (map d_n dps)) (map d_time dps)"
    using classifiesD(10)[OF H] getRegressionRMSE_lsq[OF v _ inj_nlogn, of nLogNT] pos
    by (simp add: nLogNT_def)
  have q: "q = lsqRMSE (map (\<lambda>k. (real k)\<^sup>2) (map d_n dps)) (map d_time dps)"
    using classifiesD(11)[OF H] getRegressionRMSE_lsq[OF v _ inj_quadratic, of quadraticT]
    by (simp add: quadraticT_def)
  show "modelsOf c l li nl q = rawModels dps"
    unfolding rawModels_def Let_def c l li nl q by (simp add: comp_def)
  show "c = flatRMSE (map d_time dps)" by (rule c)
  show "l = lsqRMSE (map (\<lambda>d. ln (real (d_n d))) dps) (map d_time dps)"
    using l by (simp add: comp_def)
qed


lemma shownOf_mset:
  "mset (shownOf ms) = mset (map (\<lambda>m. \<lparr>f_type = m_type m, f_rmse = m_rmse m\<rparr>) ms)"
  unfolding shownOf_def by (simp only: mset_sort)

lemma dM_raw:
  "rawModels dM = modelsOf (sqrt (74 / 9)) (sqrt (121 / 18)) (sqrt (54 / 7)) (sqrt (625 / 78))
                     (sqrt (512 / 63))"
  using ln2_pos
  by (simp add: rawModels_def dM_def flatRMSE_def lsqRMSE_def Let_def ln4 power2_eq_square)

text \<open>
  C6, amended. For at least two samples with distinct positive sizes, whatever the sign of
  their times, the classifier rejects, clamps and drops nothing: it returns a
  classification, never the degenerate result, and every sample enters every fit as it is
  given. The five fits of the result are, in some order, the RMSE of the given times around
  the mean of all of them and, for each of the four covariates, the RMSE of the
  least-squares line of the given times against it; the best fit is a label of the catalog.
\<close>

theorem no_time_validation:
  assumes "validSamples dataPoints"
  shows "\<exists>r. determineComplexity dataPoints = Inr r \<and>
             mset (results r) =
               mset (map (\<lambda>m. \<lparr>f_type = m_type m, f_rmse = m_rmse m\<rparr>) (rawModels dataPoints)) \<and>
             bestFit r \<in> set catalogLabels"
proof -
  let ?fitOf = "\<lambda>m. \<lparr>f_type = m_type m, f_rmse = m_rmse m\<rparr>"
  from determineComplexity_valid[OF assms] obtain c l li nl q m0 rest where
    H: "classifies dataPoints c l li nl q m0 rest" by blast
  note raw = classifies_raw[OF assms H]
  have s': "sort_key m_rmse (modelsOf c l li nl q) = m0 # rest" by (rule classifiesD(12)[OF H])
  let ?b = "foldl occamStep m0 rest"
  let ?rU = "\<lparr>bestFit = (if l < c then ''O(log n) - Logarithmic'' else ''O(1) - Constant''),
               confidence = 95, results = shownOf (m0 # rest)\<rparr>"
  let ?rS = "\<lparr>bestFit = m_type ?b,
               confidence = round (standardConfidence (meanOf dataPoints) (m0 # rest) ?b),
               results = shownOf (m0 # rest)\<rparr>"
  have s: "sort_key m_rmse (rawModels dataPoints) = m0 # rest"
    using classifiesD(12)[OF H] unfolding raw(1) .
  have "mset (m0 # rest) = mset (sort_key m_rmse (rawModels dataPoints))"
    by (simp only: s)
  then have "mset (m0 # rest) = mset (rawModels dataPoints)"
    by (simp only: mset_sort)
  then have "mset (map ?fitOf (m0 # rest)) = mset (map ?fitOf (rawModels dataPoints))"
    by (simp only: mset_map)
  then have ms: "mset (shownOf (m0 # rest)) = mset (map ?fitOf (rawModels dataPoints))"
    by (simp only: shownOf_mset)
  have "m_type ?b \<in> set (map m_type (m0 # rest))"
    using foldl_occam_in[of m0 rest] by (simp only: set_map) (rule imageI)
  then have std: "m_type ?b \<in> set catalogLabels" by (simp only: types_sorted_models[OF s'])
  have ultra: "(if l < c then ''O(log n) - Logarithmic'' else ''O(1) - Constant'') \<in> set catalogLabels"
    by (simp add: catalogLabels_def)
  show ?thesis
  proof (cases "meanOf dataPoints < 1 / 10000")
    case True
    have d: "determineComplexity dataPoints = Inr ?rU"
      using classifiesD(13)[OF H] True by (simp only: if_True)
    have "determineComplexity dataPoints = Inr ?rU \<and>
          mset (results ?rU) = mset (map ?fitOf (rawModels dataPoints)) \<and>
          bestFit ?rU \<in> set catalogLabels"
      using d ms ultra by (simp only: classification.select_convs simp_thms)
    then show ?thesis by (rule exI)
  next
    case False
    have d: "determineComplexity dataPoints = Inr ?rS"
      using classifiesD(13)[OF H] False by (simp only: if_False)
    have "determineComplexity dataPoints = Inr ?rS \<and>
          mset (results ?rS) = mset (map ?fitOf (rawModels dataPoints)) \<and>
          bestFit ?rS \<in> set catalogLabels"
      using d ms std by (simp only: classification.select_convs simp_thms)
    then show ?thesis by (rule exI)
  qed
qed

theorem no_time_validation_witness:
  "map d_time dM = [- 2, 5, 1] \<and>
   (\<exists>r. determineComplexity dM = Inr r \<and>
       mset (results r) =
         mset [\<lparr>f_type = ''O(1) - Constant'', f_rmse = sqrt (74 / 9)\<rparr>,
               \<lparr>f_type = ''O(log n) - Logarithmic'', f_rmse = sqrt (121 / 18)\<rparr>,
               \<lparr>f_type = ''O(n) - Linear'', f_rmse = sqrt (54 / 7)\<rparr>,
               \<lparr>f_type = ''O(n log n) - Linear-ithmic'', f_rmse = sqrt (625 / 78)\<rparr>,
               \<lparr>f_type = ''O(n^2) - Quadratic'', f_rmse = sqrt (512 / 63)\<rparr>] \<and>
       bestFit r \<in> set catalogLabels)"
proof -
  have t: "map d_time dM = [- 2, 5, 1]" by (simp add: dM_def)
  have v: "validSamples dM" by (simp add: validSamples_def dM_def)
  have e: "map (\<lambda>m. \<lparr>f_type = m_type m, f_rmse = m_rmse m\<rparr>) (rawModels dM) =
         [\<lparr>f_type = ''O(1) - Constant'', f_rmse = sqrt (74 / 9)\<rparr>,
          \<lparr>f_type = ''O(log n) - Logarithmic'', f_rmse = sqrt (121 / 18)\<rparr>,
          \<lparr>f_type = ''O(n) - Linear'', f_rmse = sqrt (54 / 7)\<rparr>,
          \<lparr>f_type = ''O(n log n) - Linear-ithmic'', f_rmse = sqrt (625 / 78)\<rparr>,
          \<lparr>f_type = ''O(n^2) - Quadratic'', f_rmse = sqrt (512 / 63)\<rparr>]"
    unfolding dM_raw by (simp add: modelsOf_def)
  show ?thesis using no_time_validation [OF v] t unfolding e by (intro conjI)
qed

text \<open>
  C1, as the claim states it, fails for \<open>determineComplexity\<close>: on one sample it returns the
  constant model with confidence 70 and five fits, and on no sample \<open>ss.mean\<close> throws.
\<close>

theorem single_sample_counterexample:
  "length dOne = 1 \<and>
   determineComplexity dOne = Inr \<lparr>bestFit = ''O(1) - Constant'', confidence = 70,
     results =
       [\<lparr>f_type = ''O(1) - Constant'', f_rmse = 0\<rparr>,
        \<lparr>f_type = ''O(log n) - Logarithmic'', f_rmse = 0\<rparr>,
        \<lparr>f_type = ''O(n) - Linear'', f_rmse = 0\<rparr>,
        \<lparr>f_type = ''O(n log n) - Linear-ithmic'', f_rmse = 0\<rparr>,
        \<lparr>f_type = ''O(n^2) - Quadratic'', f_rmse = 0\<rparr>]\<rparr> \<and>
   determineComplexity [] = Inl EmptyMean"
proof -
  have "length dOne = 1" by (simp add: dOne_def)
  moreover have "determineComplexity [] = Inl EmptyMean"
    by (simp add: determineComplexity_def ss_mean_def)
  ultimately show ?thesis using dOne_result by (intro conjI)
qed

text \<open>
  C1, amended. For every list of fewer than two sizes, \<open>runSingleAnalysis\<close> returns the
  degenerate result (best fit \<open>N/A\<close>, confidence 0, no fits) without running the
  benchmark or the classifier, and does not throw.
\<close>

theorem runSingleAnalysis_degenerate:
  "length inputSizes < 2 \<Longrightarrow>
   runSingleAnalysis alg inputSizes iterations inputMode e =
     Inr (\<lparr>bestFit = ''N/A'', confidence = 0, results = []\<rparr>, e)"
  by (simp add: runSingleAnalysis_def)

theorem runSingleAnalysis_degenerate_witness:
  "runSingleAnalysis alwaysReturns [10] 10 ''array'' \<lparr>clock = stillClock, reads = 0, calls = 0\<rparr> =
     Inr (\<lparr>bestFit = ''N/A'', confidence = 0, results = []\<rparr>,
          \<lparr>clock = stillClock, reads = 0, calls = 0\<rparr>)"
  using runSingleAnalysis_degenerate
          [of "[10]" alwaysReturns 10 "''array''" "\<lparr>clock = stillClock, reads = 0, calls = 0\<rparr>"]
  by simp

text \<open>
  The upper half of the bound of C4 does hold: for at least two samples with distinct
  positive sizes the confidence is at most 100 in either regime.
\<close>

lemma confidence_upper_bound:
  assumes "validSamples dataPoints"
  shows "\<exists>r. determineComplexity dataPoints = Inr r \<and> confidence r \<le> 100"
proof -
  from determineComplexity_valid[OF assms] obtain c l li nl q m0 rest where
    H: "classifies dataPoints c l li nl q m0 rest" by blast
  note s = classifiesD(12)[OF H]
  let ?b = "foldl occamStep m0 rest"
  show ?thesis
  proof (cases "meanOf dataPoints < 1 / 10000")
    case True
    have "determineComplexity dataPoints = Inr
              \<lparr>bestFit = (if l < c then ''O(log n) - Logarithmic'' else ''O(1) - Constant''),
               confidence = 95, results = shownOf (m0 # rest)\<rparr>"
      using classifiesD(13)[OF H] True by (simp only: if_True)
    then show ?thesis by simp
  next
    case False
    have d: "determineComplexity dataPoints = Inr
              \<lparr>bestFit = m_type ?b,
               confidence = round (standardConfidence (meanOf dataPoints) (m0 # rest) ?b),
               results = shownOf (m0 # rest)\<rparr>"
      using classifiesD(13)[OF H] False by (simp only: if_False)
    have "?b \<in> set (sort_key m_rmse (modelsOf c l li nl q))" unfolding s by (rule foldl_occam_in)
    then have "?b \<in> set (modelsOf c l li nl q)" by (simp only: set_sort)
    then have nn: "0 \<le> m_rmse ?b"
      using classifiesD(2-6)[OF H] by (auto simp: modelsOf_def)
    have pos: "0 < meanOf dataPoints" using False by simp
    define y where "y = m_rmse ?b / meanOf dataPoints"
    have "0 \<le> y" unfolding y_def using nn pos by simp
    then have "max 0 (1 - y * 2) \<le> 1" by simp
    moreover have "fitQualityOf (meanOf dataPoints) ?b = max 0 (1 - y * 2)"
      unfolding fitQualityOf_def Let_def y_def using pos by (simp only: if_True)
    ultimately have fq: "fitQualityOf (meanOf dataPoints) ?b \<le> 1" by simp
    have sep: "separationOf (m0 # rest) ?b \<le> 1"
      by (simp add: separationOf_def Let_def split: list.splits option.splits)
    have "standardConfidence (meanOf dataPoints) (m0 # rest) ?b \<le> 100"
      unfolding standardConfidence_def using fq sep by simp
    then have "round (standardConfidence (meanOf dataPoints) (m0 # rest) ?b) \<le> round (100 :: real)"
      by (rule round_mono)
    then show ?thesis using d by simp
  qed
qed

end
